theory Spec2Isabelle
  imports Complex_Main
begin

section \<open>Values\<close>

text \<open>
  The handler of \<^verbatim>\<open>src/handler.py\<close> receives the event that a JSON loader produced: a
  value built from \<^verbatim>\<open>None\<close>, \<^verbatim>\<open>bool\<close>, \<^verbatim>\<open>int\<close> (unbounded), \<^verbatim>\<open>float\<close>, \<^verbatim>\<open>str\<close>,
  \<^verbatim>\<open>list\<close> and \<^verbatim>\<open>dict\<close> with string keys. A dictionary keeps its insertion order, so it
  is an association list; a lookup takes the first entry of a key (the keys of a Python
  dictionary are distinct, so there is only one).

  A Python \<^verbatim>\<open>float\<close> is an IEEE 754 binary64 number. It is modelled by its exact rational
  value, with the four special values on their own: negative zero, the two infinities and
  not-a-number. \<open>Finite 0\<close> is positive zero.
\<close>

datatype pyfloat = Finite rat | NegZero | PosInf | NegInf | NaN

datatype json =
    JNull
  | JBool bool
  | JInt int
  | JFloat pyfloat
  | JStr string
  | JList "json list"
  | JDict "(string \<times> json) list"

text \<open>The exceptions that the operations used by the handler can raise.\<close>

datatype pyerr =
    TypeError string
  | OverflowError string
  | AttributeError string
  | ValueError string

section \<open>Strings\<close>

text \<open>
  A \<^typ>\<open>char\<close> stands for the code point of its number, so a string of the model is a
  Python \<^verbatim>\<open>str\<close> over the code points 0 to 255.

  \<^verbatim>\<open>str.isspace\<close> holds in that range of the code points 9 to 13, 28 to 32, 133 and 160. It is
  also what \<^verbatim>\<open>\s\<close> matches in a \<^verbatim>\<open>str\<close> pattern and what \<^verbatim>\<open>str.strip()\<close> removes at both
  ends.
\<close>

definition py_isspace :: "char \<Rightarrow> bool" where
  "py_isspace c =
     (let n = (of_char c :: nat)
      in (9 \<le> n \<and> n \<le> 13) \<or> (28 \<le> n \<and> n \<le> 32) \<or> n = 133 \<or> n = 160)"

definition py_strip :: "string \<Rightarrow> string" where
  "py_strip s = rev (dropWhile py_isspace (rev (dropWhile py_isspace s)))"

text \<open>
  \<^verbatim>\<open>str.lower\<close> maps each character on its own. In this range it moves the letters A to Z
  (65 to 90) and the accented capitals 192 to 222, but for the multiplication sign 215, up
  by 32 and leaves every other character alone.
\<close>

definition lower_char :: "char \<Rightarrow> char" where
  "lower_char c =
     (let n = (of_char c :: nat)
      in if (65 \<le> n \<and> n \<le> 90) \<or> (192 \<le> n \<and> n \<le> 222 \<and> n \<noteq> 215)
         then char_of (n + 32) else c)"

definition py_lower :: "string \<Rightarrow> string" where
  "py_lower s = map lower_char s"

text \<open>
  \<^verbatim>\<open>str.upper\<close> does not stay in this range: the micro sign 181 becomes the code point 924,
  \<^verbatim>\<open>y\<close> with diaeresis 255 becomes 376, and sharp s 223 becomes the two letters \<^verbatim>\<open>SS\<close>. The
  letters a to z (97 to 122) and the accented small letters 224 to 254, but for the
  division sign 247, move down by 32. So the upper-cased string is given as the list of its
  code points. \<open>points\<close> are the code points of a string of the model, and \<open>text_of\<close> is
  the string of code points that are all below 256.
\<close>

definition upper_char :: "char \<Rightarrow> nat list" where
  "upper_char c =
     (let n = (of_char c :: nat)
      in if (97 \<le> n \<and> n \<le> 122) \<or> (224 \<le> n \<and> n \<le> 254 \<and> n \<noteq> 247) then [n - 32]
         else if n = 181 then [924]
         else if n = 223 then [83, 83]
         else if n = 255 then [376]
         else [n])"

definition py_upper :: "string \<Rightarrow> nat list" where
  "py_upper s = concat (map upper_char s)"

definition points :: "string \<Rightarrow> nat list" where
  "points s = map of_char s"

definition text_of :: "nat list \<Rightarrow> string" where
  "text_of u = map char_of u"

text \<open>
  \<^verbatim>\<open>str(n)\<close> of an integer: its decimal digits, with a minus sign when negative. The
  interpreter refuses to convert an integer of more than 4300 digits
  (\<^verbatim>\<open>sys.int_max_str_digits\<close>) and raises \<^verbatim>\<open>ValueError\<close>.
\<close>

fun digits :: "nat \<Rightarrow> string" where
  "digits n =
     (if n < 10 then [char_of (48 + n)] else digits (n div 10) @ [char_of (48 + n mod 10)])"

declare digits.simps [simp del]

definition int_max_str_digits :: nat where
  "int_max_str_digits = 4300"

definition str_of_int :: "int \<Rightarrow> pyerr + string" where
  "str_of_int i =
     (let ds = digits (nat \<bar>i\<bar>)
      in if int_max_str_digits < length ds
         then Inl (ValueError ''Exceeds the limit (4300 digits) for integer string conversion'')
         else Inr (if i < 0 then CHR ''-'' # ds else ds))"

section \<open>The e-mail pattern\<close>

text \<open>
  \<^verbatim>\<open>_is_email\<close> is \<^verbatim>\<open>bool(re.match(r"^[^@\s]+@[^@\s]+\.[^@\s]+$", value))\<close>. The pattern is built
  from four kinds of items: one given character, one or more characters of a class (greedy,
  with backtracking), a sequence, and the anchor \<^verbatim>\<open>$\<close>. \<open>matches r s\<close> lists what can be
  left of \<open>s\<close> after \<open>r\<close> has matched at its start, in the order in which a backtracking
  matcher tries them; \<^verbatim>\<open>re.match\<close> succeeds when there is one. \<^verbatim>\<open>^\<close> holds at the start,
  where \<^verbatim>\<open>re.match\<close> begins. Without the \<^verbatim>\<open>MULTILINE\<close> flag \<^verbatim>\<open>$\<close> holds at the end of the
  string and also just before a newline that is the last character.
\<close>

datatype regex =
    Chr char
  | Plus "char \<Rightarrow> bool"
  | Seq regex regex
  | Dollar

fun plus_rests :: "(char \<Rightarrow> bool) \<Rightarrow> string \<Rightarrow> string list" where
  "plus_rests p [] = []"
| "plus_rests p (c # cs) = (if p c then plus_rests p cs @ [cs] else [])"

fun matches :: "regex \<Rightarrow> string \<Rightarrow> string list" where
  "matches (Chr a) s = (case s of [] \<Rightarrow> [] | c # cs \<Rightarrow> if c = a then [cs] else [])"
| "matches (Plus p) s = plus_rests p s"
| "matches (Seq r1 r2) s = concat (map (matches r2) (matches r1 s))"
| "matches Dollar s = (if s = [] \<or> s = [CHR 0x0A] then [s] else [])"

definition re_match :: "regex \<Rightarrow> string \<Rightarrow> bool" where
  "re_match r s = (matches r s \<noteq> [])"

definition not_at_space :: "char \<Rightarrow> bool" where
  "not_at_space c = (c \<noteq> CHR ''@'' \<and> \<not> py_isspace c)"

definition email_pattern :: regex where
  "email_pattern =
     Seq (Plus not_at_space)
      (Seq (Chr (CHR ''@''))
        (Seq (Plus not_at_space)
          (Seq (Chr (CHR ''.''))
            (Seq (Plus not_at_space) Dollar))))"

definition is_email :: "string \<Rightarrow> bool" where
  "is_email v = re_match email_pattern v"

section \<open>Floating-point numbers\<close>

text \<open>
  Arithmetic on \<^verbatim>\<open>float\<close> computes the exact result and rounds it to the nearest binary64
  number, ties to the even significand (the default rounding mode, which Python never
  changes). A binary64 number has a significand of 53 bits and an exponent of at least
  \<open>-1022\<close>, below which the spacing of the numbers stays \<open>2\<close> to the power \<open>-1074\<close>; a
  result that rounds to \<open>2\<close> to the power \<open>1024\<close> or more is an infinity.
\<close>

text \<open>\<^verbatim>\<open>int.bit_length()\<close>, on a positive integer: the number of its binary digits.\<close>

function bit_length :: "int \<Rightarrow> int" where
  "bit_length n = (if n \<le> 0 then 0 else 1 + bit_length (n div 2))"
  by pat_completeness auto
termination
  by (relation "measure nat") auto

declare bit_length.simps [simp del]

definition pow2 :: "int \<Rightarrow> rat" where
  "pow2 e = (if 0 \<le> e then 2 ^ nat e else 1 / 2 ^ nat (- e))"

definition round_half_even :: "rat \<Rightarrow> int" where
  "round_half_even q =
     (let f = \<lfloor>q\<rfloor>; r = q - of_int f
      in if r < 1 / 2 then f
         else if 1 / 2 < r then f + 1
         else if even f then f else f + 1)"

text \<open>The exponent \<open>e\<close> with \<open>2 ^ e \<le> q < 2 ^ (e + 1)\<close>, for a positive \<open>q\<close>.\<close>

definition floorlog2 :: "rat \<Rightarrow> int" where
  "floorlog2 q =
     (if 1 \<le> q then bit_length \<lfloor>q\<rfloor> - 1 else - bit_length (\<lceil>1 / q\<rceil> - 1))"

definition double_round :: "rat \<Rightarrow> pyfloat" where
  "double_round q =
     (if q = 0 then Finite 0
      else
        let a = \<bar>q\<bar>;
            e = max (floorlog2 a) (- 1022) - 52;
            m = round_half_even (a / pow2 e);
            v = of_int m * pow2 e
        in if pow2 1024 \<le> v then (if 0 < q then PosInf else NegInf)
           else if m = 0 then (if 0 < q then Finite 0 else NegZero)
           else Finite (if 0 < q then v else - v))"

text \<open>
  \<^verbatim>\<open>float(n)\<close> of an integer rounds in the same way, and raises \<^verbatim>\<open>OverflowError\<close> where the
  rounded value is out of range. \<^verbatim>\<open>float(b)\<close> of a boolean is \<^verbatim>\<open>1.0\<close> or \<^verbatim>\<open>0.0\<close>, and
  \<^verbatim>\<open>float(x)\<close> of a float is \<open>x\<close>. Of any other value of an event it raises
  \<^verbatim>\<open>TypeError\<close> (of a string that does not spell a number, \<^verbatim>\<open>ValueError\<close>; the handler
  converts numbers only).
\<close>

definition float_of_int :: "int \<Rightarrow> pyerr + pyfloat" where
  "float_of_int n =
     (case double_round (of_int n) of
        PosInf \<Rightarrow> Inl (OverflowError ''int too large to convert to float'')
      | NegInf \<Rightarrow> Inl (OverflowError ''int too large to convert to float'')
      | f \<Rightarrow> Inr f)"

fun py_float :: "json \<Rightarrow> pyerr + pyfloat" where
  "py_float (JFloat x) = Inr x"
| "py_float (JInt n) = float_of_int n"
| "py_float (JBool b) = Inr (Finite (if b then 1 else 0))"
| "py_float v = Inl (TypeError ''float() argument must be a string or a real number'')"

fun is_nan :: "pyfloat \<Rightarrow> bool" where
  "is_nan NaN = True"
| "is_nan x = False"

fun is_inf :: "pyfloat \<Rightarrow> bool" where
  "is_inf PosInf = True"
| "is_inf NegInf = True"
| "is_inf x = False"

text \<open>The sign bit, and the value of a number that is neither infinite nor not-a-number.\<close>

fun sign_bit :: "pyfloat \<Rightarrow> bool" where
  "sign_bit (Finite q) = (q < 0)"
| "sign_bit NegZero = True"
| "sign_bit NegInf = True"
| "sign_bit x = False"

fun value_of :: "pyfloat \<Rightarrow> rat" where
  "value_of (Finite q) = q"
| "value_of x = 0"

definition float_mul :: "pyfloat \<Rightarrow> pyfloat \<Rightarrow> pyfloat" where
  "float_mul x y =
     (if is_nan x \<or> is_nan y then NaN
      else if is_inf x \<or> is_inf y then
        (if (\<not> is_inf x \<and> value_of x = 0) \<or> (\<not> is_inf y \<and> value_of y = 0) then NaN
         else if sign_bit x \<noteq> sign_bit y then NegInf else PosInf)
      else if value_of x * value_of y = 0 then
        (if sign_bit x \<noteq> sign_bit y then NegZero else Finite 0)
      else double_round (value_of x * value_of y))"

definition float_sub :: "pyfloat \<Rightarrow> pyfloat \<Rightarrow> pyfloat" where
  "float_sub x y =
     (if is_nan x \<or> is_nan y then NaN
      else if is_inf x then
        (if is_inf y \<and> sign_bit x = sign_bit y then NaN else x)
      else if is_inf y then (if sign_bit y then PosInf else NegInf)
      else if value_of x - value_of y = 0 then
        (if x = NegZero \<and> y = Finite 0 then NegZero else Finite 0)
      else double_round (value_of x - value_of y))"

text \<open>\<^verbatim>\<open>x <= 0\<close> for a float \<open>x\<close>: every comparison with not-a-number is false.\<close>

fun float_le_zero :: "pyfloat \<Rightarrow> bool" where
  "float_le_zero (Finite q) = (q \<le> 0)"
| "float_le_zero NegZero = True"
| "float_le_zero NegInf = True"
| "float_le_zero PosInf = False"
| "float_le_zero NaN = False"

text \<open>
  \<^verbatim>\<open>round(x, ndigits)\<close> of a float, for \<^verbatim>\<open>ndigits\<close> from 0 to 22: the exact value of \<open>x\<close> is
  rounded to that many decimal places, ties to the even last digit, and the decimal number
  is converted to the nearest float. The sign is kept; infinities and not-a-number come
  back as they are.
\<close>

fun py_round :: "pyfloat \<Rightarrow> nat \<Rightarrow> pyfloat" where
  "py_round (Finite q) ndigits =
     (let r = of_int (round_half_even (q * 10 ^ ndigits)) / 10 ^ ndigits
      in if r = 0 then (if q < 0 then NegZero else Finite 0) else double_round r)"
| "py_round x ndigits = x"

text \<open>A float literal of the source denotes the float nearest to the decimal number.\<close>

definition float_literal :: "rat \<Rightarrow> pyfloat" where
  "float_literal q = double_round q"

section \<open>Operations on event values\<close>

text \<open>
  \<^verbatim>\<open>isinstance(v, int)\<close> holds of integers and of booleans (\<^verbatim>\<open>bool\<close> is a subclass of
  \<^verbatim>\<open>int\<close>, with \<^verbatim>\<open>True == 1\<close> and \<^verbatim>\<open>False == 0\<close>); \<^verbatim>\<open>isinstance(v, (int, float))\<close> of
  those and of floats; \<^verbatim>\<open>isinstance(v, str)\<close> of strings only.
\<close>

fun is_int :: "json \<Rightarrow> bool" where
  "is_int (JInt n) = True"
| "is_int (JBool b) = True"
| "is_int v = False"

fun is_number :: "json \<Rightarrow> bool" where
  "is_number (JInt n) = True"
| "is_number (JBool b) = True"
| "is_number (JFloat x) = True"
| "is_number v = False"

fun is_str :: "json \<Rightarrow> bool" where
  "is_str (JStr s) = True"
| "is_str v = False"

fun is_dict :: "json \<Rightarrow> bool" where
  "is_dict (JDict kvs) = True"
| "is_dict v = False"

text \<open>\<^verbatim>\<open>event.get(key)\<close>: the value of the key, \<^verbatim>\<open>None\<close> when the key is absent.\<close>

definition get :: "(string \<times> json) list \<Rightarrow> string \<Rightarrow> json" where
  "get kvs k = (case map_of kvs k of None \<Rightarrow> JNull | Some v \<Rightarrow> v)"

text \<open>
  \<^verbatim>\<open>v < k\<close> for an integer literal \<open>k\<close>. Between a number and an integer it compares
  the values; of any other value of an event with an integer it raises \<^verbatim>\<open>TypeError\<close>.
\<close>

fun float_lt_int :: "pyfloat \<Rightarrow> int \<Rightarrow> bool" where
  "float_lt_int (Finite q) k = (q < of_int k)"
| "float_lt_int NegZero k = (0 < k)"
| "float_lt_int NegInf k = True"
| "float_lt_int PosInf k = False"
| "float_lt_int NaN k = False"

fun py_lt :: "json \<Rightarrow> int \<Rightarrow> pyerr + bool" where
  "py_lt (JInt n) k = Inr (n < k)"
| "py_lt (JBool b) k = Inr ((if b then 1 else 0) < k)"
| "py_lt (JFloat x) k = Inr (float_lt_int x k)"
| "py_lt v k = Inl (TypeError ''< not supported between these instances'')"

text \<open>
  The string methods \<^verbatim>\<open>lower\<close> and \<^verbatim>\<open>strip\<close> exist on strings only: on any other value
  of an event the attribute lookup raises \<^verbatim>\<open>AttributeError\<close>.
\<close>

fun lower :: "json \<Rightarrow> pyerr + json" where
  "lower (JStr s) = Inr (JStr (py_lower s))"
| "lower v = Inl (AttributeError ''lower'')"

fun strip :: "json \<Rightarrow> pyerr + json" where
  "strip (JStr s) = Inr (JStr (py_strip s))"
| "strip v = Inl (AttributeError ''strip'')"

text \<open>
  \<^verbatim>\<open>v in S\<close> for a set \<open>S\<close> of strings hashes \<open>v\<close> first: lists and dictionaries are
  unhashable, and the test raises \<^verbatim>\<open>TypeError\<close> on them. Every other value of an event is
  hashable, and only a string is equal to a string.
\<close>

fun in_str_set :: "json \<Rightarrow> string list \<Rightarrow> pyerr + bool" where
  "in_str_set (JList xs) S = Inl (TypeError ''unhashable type: list'')"
| "in_str_set (JDict kvs) S = Inl (TypeError ''unhashable type: dict'')"
| "in_str_set (JStr s) S = Inr (s \<in> set S)"
| "in_str_set v S = Inr False"

text \<open>
  \<^verbatim>\<open>f"{v}"\<close> is \<^verbatim>\<open>str(v)\<close>: a string is itself, \<^verbatim>\<open>None\<close>, \<^verbatim>\<open>True\<close> and \<^verbatim>\<open>False\<close> are their
  names, an integer is its decimal digits, where the interpreter converts it. The text of a
  float and of a container is their \<^verbatim>\<open>repr\<close>, which is not modelled here: it is the
  parameter \<open>repr\<close>.
\<close>

fun format :: "(json \<Rightarrow> string) \<Rightarrow> json \<Rightarrow> pyerr + string" where
  "format repr (JStr s) = Inr s"
| "format repr JNull = Inr ''None''"
| "format repr (JBool b) = Inr (if b then ''True'' else ''False'')"
| "format repr (JInt n) = str_of_int n"
| "format repr v = Inr (repr v)"

text \<open>Sequencing of computations that may raise: the first exception ends the computation.\<close>

definition bind :: "pyerr + 'a \<Rightarrow> ('a \<Rightarrow> pyerr + 'b) \<Rightarrow> pyerr + 'b" where
  "bind m f = (case m of Inl e \<Rightarrow> Inl e | Inr x \<Rightarrow> f x)"

section \<open>The response envelope\<close>

definition ALLOWED_TYPES :: "string list" where
  "ALLOWED_TYPES = [''USER_SIGNUP'', ''PAYMENT'', ''FILE_UPLOAD'']"

definition err :: "string list \<Rightarrow> json" where
  "err msgs =
     JDict [(''status'', JStr ''error''),
            (''message'', JStr ''Event rejected''),
            (''data'', JNull),
            (''errors'', JList (map JStr msgs))]"

definition ok :: "string \<Rightarrow> (string \<times> json) list \<Rightarrow> json" where
  "ok message data =
     JDict [(''status'', JStr ''ok''),
            (''message'', JStr message),
            (''data'', JDict data),
            (''errors'', JList [])]"

section \<open>Guarded conditions\<close>

text \<open>
  The validators test a field's value only behind the type check that makes the test
  defined: \<^verbatim>\<open>isinstance(v, str) and P(v)\<close>, \<^verbatim>\<open>isinstance(v, int) and P(v)\<close>, and
  \<^verbatim>\<open>isinstance(v, (int, float)) and v <= 0\<close>. \<^verbatim>\<open>and\<close> does not evaluate its second operand
  when the first is false.
\<close>

fun str_and :: "json \<Rightarrow> (string \<Rightarrow> bool) \<Rightarrow> bool" where
  "str_and (JStr s) P = P s"
| "str_and v P = False"

fun int_and :: "json \<Rightarrow> (int \<Rightarrow> bool) \<Rightarrow> bool" where
  "int_and (JInt n) P = P n"
| "int_and (JBool b) P = P (if b then 1 else 0)"
| "int_and v P = False"

fun number_and_le_zero :: "json \<Rightarrow> bool" where
  "number_and_le_zero (JInt n) = (n \<le> 0)"
| "number_and_le_zero (JBool b) = (\<not> b)"
| "number_and_le_zero (JFloat x) = float_le_zero x"
| "number_and_le_zero v = False"

text \<open>\<^verbatim>\<open>if isinstance(v, str): v = v.lower()\<close>.\<close>

fun lower_if_str :: "json \<Rightarrow> json" where
  "lower_if_str (JStr s) = JStr (py_lower s)"
| "lower_if_str v = v"

text \<open>
  \<^verbatim>\<open>if isinstance(v, str): v = v.upper()\<close> gives the code points of the upper-cased string
  when \<open>v\<close> is a string, and leaves \<open>v\<close> as it is otherwise. \<open>upper_if_str\<close> is the first
  of the two, \<open>upper_not_in\<close> the test \<^verbatim>\<open>isinstance(v, str) and v not in S\<close> made of the
  result, and \<open>assigned\<close> the value that the variable holds afterwards. The handler puts
  that value in its output only when no check has failed, and then the code points are
  those of a string of \<open>S\<close>.
\<close>

fun upper_if_str :: "json \<Rightarrow> nat list option" where
  "upper_if_str (JStr s) = Some (py_upper s)"
| "upper_if_str v = None"

fun upper_not_in :: "nat list option \<Rightarrow> string list \<Rightarrow> bool" where
  "upper_not_in (Some u) S = (u \<notin> set (map points S))"
| "upper_not_in None S = False"

fun assigned :: "json \<Rightarrow> nat list option \<Rightarrow> json" where
  "assigned v (Some u) = JStr (text_of u)"
| "assigned v None = v"

section \<open>The validators\<close>

text \<open>
  Each validator reads its fields, appends a message to the list \<^verbatim>\<open>errors\<close> for every
  check that fails, returns the error envelope when the list is not empty, and builds the
  data of the success envelope otherwise. The argument is the dictionary of the event.
\<close>

definition handle_user_signup :: "(json \<Rightarrow> string) \<Rightarrow> (string \<times> json) list \<Rightarrow> pyerr + json" where
  "handle_user_signup repr event =
     (let errors = [];
          user_id = get event ''user_id'';
          email = get event ''email'';
          plan = get event ''plan'';
          errors = (if \<not> is_int user_id then errors @ [''user_id must be an integer'']
                    else errors);
          errors = (if \<not> is_str email then errors @ [''email must be a string''] else errors);
          errors = (if \<not> is_str plan then errors @ [''plan must be a string''] else errors);
          errors = (if str_and email (\<lambda>s. \<not> is_email s)
                    then errors @ [''Invalid email format''] else errors);
          plan = lower_if_str plan;
          errors = (if str_and plan (\<lambda>s. s \<notin> set [''free'', ''pro'', ''edu''])
                    then errors @ [''Invalid plan value''] else errors)
      in if errors \<noteq> [] then Inr (err errors)
         else
           bind (lower email) (\<lambda>email_lower.
           bind (format repr plan) (\<lambda>plan_text.
             Inr (ok ''Signup processed''
               [(''user_id'', user_id),
                (''email'', email_lower),
                (''plan'', plan),
                (''welcome_email_subject'',
                   JStr (''Welcome to the '' @ plan_text @ '' plan!''))]))))"

definition handle_payment :: "(string \<times> json) list \<Rightarrow> pyerr + json" where
  "handle_payment event =
     (let errors = [];
          payment_id = get event ''payment_id'';
          user_id = get event ''user_id'';
          amount = get event ''amount'';
          currency = get event ''currency'';
          errors = (if \<not> is_str payment_id then errors @ [''payment_id must be a string'']
                    else errors);
          errors = (if \<not> is_int user_id then errors @ [''user_id must be an integer'']
                    else errors);
          errors = (if \<not> is_number amount then errors @ [''amount must be a number'']
                    else errors);
          errors = (if \<not> is_str currency then errors @ [''currency must be a string'']
                    else errors);
          errors = (if number_and_le_zero amount
                    then errors @ [''amount must be greater than 0''] else errors);
          upper = upper_if_str currency;
          errors = (if upper_not_in upper [''BHD'', ''USD'', ''EUR'']
                    then errors @ [''Unsupported currency''] else errors);
          currency = assigned currency upper
      in if errors \<noteq> [] then Inr (err errors)
         else
           bind (py_float amount) (\<lambda>x.
             let amount = py_round x 3;
                 fee = py_round (float_mul amount (float_literal (2 / 100))) 3;
                 net_amount = py_round (float_sub amount fee) 3
             in Inr (ok ''Payment processed''
                  [(''payment_id'', payment_id),
                   (''user_id'', user_id),
                   (''amount'', JFloat amount),
                   (''currency'', currency),
                   (''fee'', JFloat fee),
                   (''net_amount'', JFloat net_amount)])))"

definition handle_file_upload :: "(string \<times> json) list \<Rightarrow> pyerr + json" where
  "handle_file_upload event =
     (let errors = [];
          file_name = get event ''file_name'';
          size_bytes = get event ''size_bytes'';
          bucket = get event ''bucket'';
          uploader = get event ''uploader'';
          errors = (if \<not> is_str file_name then errors @ [''file_name must be a string'']
                    else errors);
          errors = (if \<not> is_int size_bytes then errors @ [''size_bytes must be an integer'']
                    else errors);
          errors = (if int_and size_bytes (\<lambda>n. n < 0)
                    then errors @ [''size_bytes must be >= 0''] else errors);
          errors = (if \<not> is_str bucket then errors @ [''bucket must be a string''] else errors);
          errors = (if \<not> is_str uploader then errors @ [''uploader must be a string'']
                    else errors);
          errors = (if str_and uploader (\<lambda>s. \<not> is_email s)
                    then errors @ [''Invalid uploader email''] else errors)
      in if errors \<noteq> [] then Inr (err errors)
         else
           bind (strip file_name) (\<lambda>file_name.
           bind (lower bucket) (\<lambda>bucket.
           bind (lower uploader) (\<lambda>uploader.
           bind (py_lt size_bytes 1000000) (\<lambda>small.
           bind (if small then Inr ''STANDARD''
                 else bind (py_lt size_bytes 50000000) (\<lambda>medium.
                        Inr (if medium then ''STANDARD_IA'' else ''GLACIER'')))
             (\<lambda>storage_class.
               Inr (ok ''Upload processed''
                 [(''file_name'', file_name),
                  (''size_bytes'', size_bytes),
                  (''bucket'', bucket),
                  (''uploader'', uploader),
                  (''storage_class'', JStr storage_class)])))))))"

section \<open>The handler\<close>

text \<open>
  \<open>handler\<close> takes the event and the context, which it never reads. The first argument
  is not an argument of the source: it stands for Python's \<^verbatim>\<open>repr\<close> of floats and
  containers (see \<open>format\<close>).
\<close>

definition handler :: "(json \<Rightarrow> string) \<Rightarrow> json \<Rightarrow> json option \<Rightarrow> pyerr + json" where
  "handler repr event context =
     (case event of
        JDict kvs \<Rightarrow>
          (case map_of kvs ''type'' of
             None \<Rightarrow> Inr (err [''Missing 'type' field''])
           | Some event_type \<Rightarrow>
               bind (in_str_set event_type ALLOWED_TYPES) (\<lambda>allowed.
                 if \<not> allowed
                 then bind (format repr event_type) (\<lambda>text.
                        Inr (err [''Unsupported event type: '' @ text]))
                 else if event_type = JStr ''USER_SIGNUP'' then handle_user_signup repr kvs
                 else if event_type = JStr ''PAYMENT'' then handle_payment kvs
                 else if event_type = JStr ''FILE_UPLOAD'' then handle_file_upload kvs
                 else Inr (err [''Unhandled event type''])))
      | _ \<Rightarrow> Inr (err [''Event must be a dictionary'']))"

section \<open>Reading an envelope\<close>

definition keys :: "json \<Rightarrow> string list" where
  "keys r = (case r of JDict kvs \<Rightarrow> map fst kvs | _ \<Rightarrow> [])"

definition field :: "string \<Rightarrow> json \<Rightarrow> json option" where
  "field k r = (case r of JDict kvs \<Rightarrow> map_of kvs k | _ \<Rightarrow> None)"

fun str_val :: "json \<Rightarrow> string" where
  "str_val (JStr s) = s"
| "str_val v = []"

text \<open>The messages in the \<^verbatim>\<open>errors\<close> field of an envelope.\<close>

definition errors_of :: "json \<Rightarrow> string list" where
  "errors_of r = (case field ''errors'' r of Some (JList xs) \<Rightarrow> map str_val xs | _ \<Rightarrow> [])"

text \<open>The event is tagged with the type \<open>t\<close>.\<close>

definition has_type :: "(string \<times> json) list \<Rightarrow> string \<Rightarrow> bool" where
  "has_type kvs t = (map_of kvs ''type'' = Some (JStr t))"

section \<open>The validation rules, as the specification lists them\<close>

text \<open>
  For each event type, the messages of the checks that fail, in the order in which the
  specification lists the checks: the type check of every field, and a format or value
  check only of a field that passed its type check. The plan is compared after
  lower-casing and the currency after upper-casing. An event passes validation when the
  list is empty.
\<close>

definition signup_errors :: "(string \<times> json) list \<Rightarrow> string list" where
  "signup_errors kvs =
     (if is_int (get kvs ''user_id'') then [] else [''user_id must be an integer'']) @
     (if is_str (get kvs ''email'') then [] else [''email must be a string'']) @
     (if is_str (get kvs ''plan'') then [] else [''plan must be a string'']) @
     (if str_and (get kvs ''email'') (\<lambda>s. \<not> is_email s)
      then [''Invalid email format''] else []) @
     (if str_and (get kvs ''plan'') (\<lambda>s. py_lower s \<notin> {''free'', ''pro'', ''edu''})
      then [''Invalid plan value''] else [])"

definition payment_errors :: "(string \<times> json) list \<Rightarrow> string list" where
  "payment_errors kvs =
     (if is_str (get kvs ''payment_id'') then [] else [''payment_id must be a string'']) @
     (if is_int (get kvs ''user_id'') then [] else [''user_id must be an integer'']) @
     (if is_number (get kvs ''amount'') then [] else [''amount must be a number'']) @
     (if is_str (get kvs ''currency'') then [] else [''currency must be a string'']) @
     (if number_and_le_zero (get kvs ''amount'')
      then [''amount must be greater than 0''] else []) @
     (if str_and (get kvs ''currency'')
           (\<lambda>s. py_upper s \<notin> {points ''BHD'', points ''USD'', points ''EUR''})
      then [''Unsupported currency''] else [])"

definition file_upload_errors :: "(string \<times> json) list \<Rightarrow> string list" where
  "file_upload_errors kvs =
     (if is_str (get kvs ''file_name'') then [] else [''file_name must be a string'']) @
     (if is_int (get kvs ''size_bytes'') then [] else [''size_bytes must be an integer'']) @
     (if int_and (get kvs ''size_bytes'') (\<lambda>n. n < 0)
      then [''size_bytes must be >= 0''] else []) @
     (if is_str (get kvs ''bucket'') then [] else [''bucket must be a string'']) @
     (if is_str (get kvs ''uploader'') then [] else [''uploader must be a string'']) @
     (if str_and (get kvs ''uploader'') (\<lambda>s. \<not> is_email s)
      then [''Invalid uploader email''] else [])"

text \<open>The storage tier of a size, and the integer that an \<^verbatim>\<open>int\<close> value stands for.\<close>

definition storage_class_of :: "int \<Rightarrow> string" where
  "storage_class_of n =
     (if n < 1000000 then ''STANDARD''
      else if n < 50000000 then ''STANDARD_IA'' else ''GLACIER'')"

fun int_val :: "json \<Rightarrow> int" where
  "int_val (JInt n) = n"
| "int_val (JBool b) = (if b then 1 else 0)"
| "int_val v = 0"

text \<open>
  The e-mail check in the words of the specification: exactly one \<^verbatim>\<open>@\<close> with text before
  and after it, no whitespace anywhere, and a \<^verbatim>\<open>.\<close> in the domain, the text after the
  \<^verbatim>\<open>@\<close>.
\<close>

definition local_part :: "string \<Rightarrow> string" where
  "local_part s = takeWhile (\<lambda>c. c \<noteq> CHR ''@'') s"

definition domain_part :: "string \<Rightarrow> string" where
  "domain_part s = drop 1 (dropWhile (\<lambda>c. c \<noteq> CHR ''@'') s)"

definition prose_email :: "string \<Rightarrow> bool" where
  "prose_email s \<longleftrightarrow>
     count_list s (CHR ''@'') = 1 \<and> local_part s \<noteq> [] \<and> domain_part s \<noteq> [] \<and>
     (\<forall>c\<in>set s. \<not> py_isspace c) \<and> CHR ''.'' \<in> set (domain_part s)"

text \<open>
  The same with a stronger last condition: the domain has a \<^verbatim>\<open>.\<close> that is neither its
  first nor its last character.
\<close>

definition email_shape :: "string \<Rightarrow> bool" where
  "email_shape s \<longleftrightarrow>
     count_list s (CHR ''@'') = 1 \<and> local_part s \<noteq> [] \<and>
     (\<forall>c\<in>set s. \<not> py_isspace c) \<and> CHR ''.'' \<in> set (butlast (tl (domain_part s)))"

text \<open>
  The required fields of each event type: the name of the field, the type that its value
  must have, the message of its type check, and the messages of the further checks made of
  that field. \<open>messages\<close> lists every message of the table for an event type.
\<close>

datatype kind = KInt | KStr | KNumber

fun has_kind :: "kind \<Rightarrow> json \<Rightarrow> bool" where
  "has_kind KInt v = is_int v"
| "has_kind KStr v = is_str v"
| "has_kind KNumber v = is_number v"

definition required_fields :: "string \<Rightarrow> (string \<times> kind \<times> string \<times> string list) list" where
  "required_fields t =
     (if t = ''USER_SIGNUP'' then
        [(''user_id'', KInt, ''user_id must be an integer'', []),
         (''email'', KStr, ''email must be a string'', [''Invalid email format'']),
         (''plan'', KStr, ''plan must be a string'', [''Invalid plan value''])]
      else if t = ''PAYMENT'' then
        [(''payment_id'', KStr, ''payment_id must be a string'', []),
         (''user_id'', KInt, ''user_id must be an integer'', []),
         (''amount'', KNumber, ''amount must be a number'', [''amount must be greater than 0'']),
         (''currency'', KStr, ''currency must be a string'', [''Unsupported currency''])]
      else if t = ''FILE_UPLOAD'' then
        [(''file_name'', KStr, ''file_name must be a string'', []),
         (''size_bytes'', KInt, ''size_bytes must be an integer'',
            [''size_bytes must be >= 0'']),
         (''bucket'', KStr, ''bucket must be a string'', []),
         (''uploader'', KStr, ''uploader must be a string'', [''Invalid uploader email''])]
      else [])"

definition messages :: "string \<Rightarrow> string list" where
  "messages t = concat (map (\<lambda>(f, k, msg, others). msg # others) (required_fields t))"

section \<open>Basic facts\<close>

lemma keys_err: "keys (err msgs) = [''status'', ''message'', ''data'', ''errors'']"
  by (simp add: keys_def err_def)

lemma keys_ok: "keys (ok m d) = [''status'', ''message'', ''data'', ''errors'']"
  by (simp add: keys_def ok_def)

lemma field_err:
  "field ''status'' (err msgs) = Some (JStr ''error'')"
  "field ''message'' (err msgs) = Some (JStr ''Event rejected'')"
  "field ''data'' (err msgs) = Some JNull"
  "field ''errors'' (err msgs) = Some (JList (map JStr msgs))"
  by (simp_all add: field_def err_def)

lemma field_ok:
  "field ''status'' (ok m d) = Some (JStr ''ok'')"
  "field ''message'' (ok m d) = Some (JStr m)"
  "field ''data'' (ok m d) = Some (JDict d)"
  "field ''errors'' (ok m d) = Some (JList [])"
  by (simp_all add: field_def ok_def)

lemma errors_of_err: "errors_of (err msgs) = msgs"
  by (simp add: errors_of_def field_err comp_def)

lemma errors_of_ok: "errors_of (ok m d) = []"
  by (simp add: errors_of_def field_ok)

lemma err_inject: "err xs = err ys \<longleftrightarrow> xs = ys"
  by (auto simp: err_def dest: map_injective intro: injI)

lemma err_neq_ok: "err xs \<noteq> ok m d"
  by (simp add: err_def ok_def)

lemma bind_Inr: "bind (Inr x) f = f x"
  by (simp add: bind_def)

lemma bind_Inl: "bind (Inl e) f = Inl e"
  by (simp add: bind_def)

lemma is_str_iff: "is_str v \<longleftrightarrow> (\<exists>s. v = JStr s)"
  by (cases v) auto

lemma is_int_iff: "is_int v \<longleftrightarrow> (\<exists>n. v = JInt n) \<or> (\<exists>b. v = JBool b)"
  by (cases v) auto


section \<open>What each validator returns\<close>

lemma str_and_lower_if_str: "str_and (lower_if_str v) P = str_and v (\<lambda>s. P (py_lower s))"
  by (cases v) simp_all

lemma upper_not_in_upper_if_str:
  "upper_not_in (upper_if_str v) S = str_and v (\<lambda>s. py_upper s \<notin> set (map points S))"
  by (cases v) simp_all

lemma text_of_points: "text_of (points s) = s"
  by (simp add: text_of_def points_def comp_def)

lemma handle_user_signup_eq:
  "handle_user_signup repr kvs =
     (if signup_errors kvs \<noteq> [] then Inr (err (signup_errors kvs))
      else Inr (ok ''Signup processed''
             [(''user_id'', get kvs ''user_id''),
              (''email'', lower_if_str (get kvs ''email'')),
              (''plan'', lower_if_str (get kvs ''plan'')),
              (''welcome_email_subject'',
                 JStr (''Welcome to the '' @ str_val (lower_if_str (get kvs ''plan''))
                       @ '' plan!''))]))"
proof (cases "get kvs ''email''")
  case (JStr e)
  show ?thesis
  proof (cases "get kvs ''plan''")
    case (JStr p)
    with \<open>get kvs ''email'' = JStr e\<close> show ?thesis
      by (simp add: handle_user_signup_def signup_errors_def Let_def bind_Inr)
  qed (simp_all add: handle_user_signup_def signup_errors_def Let_def JStr)
qed (simp_all add: handle_user_signup_def signup_errors_def Let_def str_and_lower_if_str)

lemma handle_payment_eq:
  "handle_payment kvs =
     (if payment_errors kvs \<noteq> [] then Inr (err (payment_errors kvs))
      else bind (py_float (get kvs ''amount'')) (\<lambda>x.
             Inr (ok ''Payment processed''
               [(''payment_id'', get kvs ''payment_id''),
                (''user_id'', get kvs ''user_id''),
                (''amount'', JFloat (py_round x 3)),
                (''currency'',
                   assigned (get kvs ''currency'') (upper_if_str (get kvs ''currency''))),
                (''fee'',
                   JFloat (py_round (float_mul (py_round x 3) (float_literal (2 / 100))) 3)),
                (''net_amount'',
                   JFloat (py_round (float_sub (py_round x 3)
                     (py_round (float_mul (py_round x 3) (float_literal (2 / 100))) 3)) 3))])))"
  by (simp add: handle_payment_def payment_errors_def Let_def upper_not_in_upper_if_str)

lemma handle_file_upload_eq:
  "handle_file_upload kvs =
     (if file_upload_errors kvs \<noteq> [] then Inr (err (file_upload_errors kvs))
      else Inr (ok ''Upload processed''
             [(''file_name'', JStr (py_strip (str_val (get kvs ''file_name'')))),
              (''size_bytes'', get kvs ''size_bytes''),
              (''bucket'', lower_if_str (get kvs ''bucket'')),
              (''uploader'', lower_if_str (get kvs ''uploader'')),
              (''storage_class'',
                 JStr (storage_class_of (int_val (get kvs ''size_bytes''))))]))"
proof (cases "file_upload_errors kvs = []")
  case True
  then obtain f b u where s: "get kvs ''file_name'' = JStr f" "get kvs ''bucket'' = JStr b"
      "get kvs ''uploader'' = JStr u" and i: "is_int (get kvs ''size_bytes'')"
    by (auto simp: file_upload_errors_def is_str_iff split: if_splits)
  from i consider n where "get kvs ''size_bytes'' = JInt n"
    | c where "get kvs ''size_bytes'' = JBool c"
    by (auto simp: is_int_iff)
  then show ?thesis
  proof cases
    case 1
    with s show ?thesis
      by (simp add: handle_file_upload_def Let_def bind_Inr storage_class_of_def
          file_upload_errors_def)
  next
    case 2
    with s show ?thesis
      by (simp add: handle_file_upload_def Let_def bind_Inr storage_class_of_def
          file_upload_errors_def)
  qed
next
  case False
  then show ?thesis
    by (auto simp: handle_file_upload_def file_upload_errors_def Let_def split: if_splits)
qed

section \<open>Dispatch\<close>

lemma handler_not_dict: "\<not> is_dict event \<Longrightarrow>
    handler repr event context = Inr (err [''Event must be a dictionary''])"
  by (cases event) (simp_all add: handler_def)

lemma handler_no_type: "map_of kvs ''type'' = None \<Longrightarrow>
    handler repr (JDict kvs) context = Inr (err [''Missing 'type' field''])"
  by (simp add: handler_def)

lemma handler_unhashable:
  "map_of kvs ''type'' = Some t \<Longrightarrow> in_str_set t ALLOWED_TYPES = Inl e \<Longrightarrow>
    handler repr (JDict kvs) context = Inl e"
  by (simp add: handler_def bind_Inl)

lemma handler_unsupported:
  "map_of kvs ''type'' = Some t \<Longrightarrow> in_str_set t ALLOWED_TYPES = Inr False \<Longrightarrow>
    format repr t = Inr text \<Longrightarrow>
    handler repr (JDict kvs) context = Inr (err [''Unsupported event type: '' @ text])"
  by (simp add: handler_def bind_Inr)

lemma handler_unformattable:
  "map_of kvs ''type'' = Some t \<Longrightarrow> in_str_set t ALLOWED_TYPES = Inr False \<Longrightarrow>
    format repr t = Inl e \<Longrightarrow> handler repr (JDict kvs) context = Inl e"
  by (simp add: handler_def bind_Inr bind_Inl)

lemma handler_signup: "has_type kvs ''USER_SIGNUP'' \<Longrightarrow>
    handler repr (JDict kvs) context = handle_user_signup repr kvs"
  by (simp add: handler_def has_type_def bind_Inr ALLOWED_TYPES_def)

lemma handler_payment: "has_type kvs ''PAYMENT'' \<Longrightarrow>
    handler repr (JDict kvs) context = handle_payment kvs"
  by (simp add: handler_def has_type_def bind_Inr ALLOWED_TYPES_def)

lemma handler_upload: "has_type kvs ''FILE_UPLOAD'' \<Longrightarrow>
    handler repr (JDict kvs) context = handle_file_upload kvs"
  by (simp add: handler_def has_type_def bind_Inr ALLOWED_TYPES_def)

lemma in_str_set_cases:
  obtains (unhashable) e where "in_str_set t ALLOWED_TYPES = Inl e"
      "(\<exists>xs. t = JList xs) \<or> (\<exists>d. t = JDict d)"
  | (unsupported) "in_str_set t ALLOWED_TYPES = Inr False"
  | (signup) "t = JStr ''USER_SIGNUP''"
  | (payment) "t = JStr ''PAYMENT''"
  | (upload) "t = JStr ''FILE_UPLOAD''"
  by (cases t) (auto simp: ALLOWED_TYPES_def)

text \<open>Every envelope is an error envelope with at least one message or a success envelope.\<close>

lemma handler_shape:
  assumes "handler repr event context = Inr r"
  shows "(\<exists>msgs. msgs \<noteq> [] \<and> r = err msgs) \<or> (\<exists>m d. r = ok m d)"
proof (cases event)
  case (JDict kvs)
  show ?thesis
  proof (cases "map_of kvs ''type''")
    case None
    with assms JDict show ?thesis by (auto simp: handler_no_type)
  next
    case (Some t)
    show ?thesis
    proof (cases t rule: in_str_set_cases)
      case (unhashable e)
      with assms JDict Some show ?thesis by (simp add: handler_unhashable)
    next
      case unsupported
      with assms JDict Some show ?thesis
        by (cases "format repr t") (auto simp: handler_unsupported handler_unformattable)
    next
      case signup
      with Some have "has_type kvs ''USER_SIGNUP''" by (simp add: has_type_def)
      with assms JDict show ?thesis
        by (auto simp: handler_signup handle_user_signup_eq split: if_splits)
    next
      case payment
      with Some have "has_type kvs ''PAYMENT''" by (simp add: has_type_def)
      with assms JDict show ?thesis
        by (auto simp: handler_payment handle_payment_eq bind_def split: if_splits sum.splits)
    next
      case upload
      with Some have "has_type kvs ''FILE_UPLOAD''" by (simp add: has_type_def)
      with assms JDict show ?thesis
        by (auto simp: handler_upload handle_file_upload_eq split: if_splits)
    qed
  qed
qed (use assms in \<open>auto simp: handler_def\<close>)

section \<open>What the e-mail pattern accepts\<close>

lemma plus_rests_iff:
  "t \<in> set (plus_rests p s) \<longleftrightarrow> (\<exists>u. u \<noteq> [] \<and> s = u @ t \<and> (\<forall>c\<in>set u. p c))"
proof (induction s)
  case Nil
  then show ?case by simp
next
  case (Cons c cs)
  show ?case
  proof
    assume "t \<in> set (plus_rests p (c # cs))"
    then have pc: "p c" and "t \<in> set (plus_rests p cs) \<or> t = cs"
      by (auto split: if_splits)
    then consider u where "u \<noteq> []" "cs = u @ t" "\<forall>x\<in>set u. p x" | "t = cs"
      using Cons.IH by auto
    then show "\<exists>u. u \<noteq> [] \<and> c # cs = u @ t \<and> (\<forall>c\<in>set u. p c)"
    proof cases
      case 1
      with pc have "c # u \<noteq> [] \<and> c # cs = (c # u) @ t \<and> (\<forall>x\<in>set (c # u). p x)" by simp
      then show ?thesis by blast
    next
      case 2
      with pc have "[c] \<noteq> [] \<and> c # cs = [c] @ t \<and> (\<forall>x\<in>set [c]. p x)" by simp
      then show ?thesis by blast
    qed
  next
    assume "\<exists>u. u \<noteq> [] \<and> c # cs = u @ t \<and> (\<forall>c\<in>set u. p c)"
    then obtain u where u: "u \<noteq> []" "c # cs = u @ t" "\<forall>x\<in>set u. p x" by blast
    then obtain u' where u': "u = c # u'" "cs = u' @ t"
      by (cases u) auto
    with u have pc: "p c" and all: "\<forall>x\<in>set u'. p x" by auto
    show "t \<in> set (plus_rests p (c # cs))"
    proof (cases "u' = []")
      case True
      with u' pc show ?thesis by simp
    next
      case False
      with u' all have "t \<in> set (plus_rests p cs)" using Cons.IH by blast
      with pc show ?thesis by simp
    qed
  qed
qed

lemma matches_Chr_iff: "t \<in> set (matches (Chr a) s) \<longleftrightarrow> s = a # t"
  by (cases s) auto

lemma matches_Seq_iff:
  "t \<in> set (matches (Seq r1 r2) s) \<longleftrightarrow> (\<exists>m. m \<in> set (matches r1 s) \<and> t \<in> set (matches r2 m))"
  by auto

lemma matches_Dollar_iff:
  "t \<in> set (matches Dollar s) \<longleftrightarrow> t = s \<and> (s = [] \<or> s = [CHR 0x0A])"
  by auto

lemma re_match_iff: "re_match r s \<longleftrightarrow> (\<exists>t. t \<in> set (matches r s))"
  by (cases "matches r s") (auto simp: re_match_def)

lemma is_email_decompose:
  "is_email s \<longleftrightarrow>
     (\<exists>a b c t. s = a @ CHR ''@'' # b @ CHR ''.'' # c @ t \<and> a \<noteq> [] \<and> b \<noteq> [] \<and> c \<noteq> [] \<and>
        (\<forall>x\<in>set a. not_at_space x) \<and> (\<forall>x\<in>set b. not_at_space x) \<and>
        (\<forall>x\<in>set c. not_at_space x) \<and> (t = [] \<or> t = [CHR 0x0A]))"
  unfolding is_email_def re_match_iff email_pattern_def matches_Seq_iff matches_Chr_iff
    matches_Dollar_iff matches.simps(2) plus_rests_iff
  by (auto; blast)

lemma not_space_at: "\<not> py_isspace (CHR ''@'')"
  by (simp add: py_isspace_def)

lemma not_space_dot: "\<not> py_isspace (CHR ''.'')"
  by (simp add: py_isspace_def)

lemma space_newline: "py_isspace (CHR 0x0A)"
  by (simp add: py_isspace_def)

lemma all_not_at_space:
  "(\<forall>x\<in>set a. not_at_space x) \<longleftrightarrow> CHR ''@'' \<notin> set a \<and> (\<forall>x\<in>set a. \<not> py_isspace x)"
  unfolding not_at_space_def by blast

lemma local_part_append: "CHR ''@'' \<notin> set a \<Longrightarrow> local_part (a @ CHR ''@'' # d) = a"
  by (induction a) (auto simp: local_part_def)

lemma domain_part_append: "CHR ''@'' \<notin> set a \<Longrightarrow> domain_part (a @ CHR ''@'' # d) = d"
  by (induction a) (auto simp: domain_part_def)

lemma inner_dot: "b \<noteq> [] \<Longrightarrow> c \<noteq> [] \<Longrightarrow> CHR ''.'' \<in> set (butlast (tl (b @ CHR ''.'' # c)))"
  by (cases b) (simp_all add: butlast_append)

lemma email_shape_of_parts:
  assumes ne: "a \<noteq> []" "b \<noteq> []" "c \<noteq> []"
    and cl: "\<forall>x\<in>set a. not_at_space x" "\<forall>x\<in>set b. not_at_space x"
      "\<forall>x\<in>set c. not_at_space x"
  shows "email_shape (a @ CHR ''@'' # b @ CHR ''.'' # c)"
proof -
  from cl have noat: "CHR ''@'' \<notin> set a" "CHR ''@'' \<notin> set b" "CHR ''@'' \<notin> set c"
    and nosp: "\<forall>x\<in>set a. \<not> py_isspace x" "\<forall>x\<in>set b. \<not> py_isspace x"
      "\<forall>x\<in>set c. \<not> py_isspace x"
    by (simp_all add: all_not_at_space)
  let ?s = "a @ CHR ''@'' # b @ CHR ''.'' # c"
  have "count_list ?s (CHR ''@'') = 1"
    using noat by (simp add: count_list_0_iff)
  moreover have "local_part ?s = a"
    using noat(1) by (rule local_part_append)
  moreover have "\<forall>x\<in>set ?s. \<not> py_isspace x"
    using nosp by (simp add: ball_Un not_space_at not_space_dot)
  moreover have "domain_part ?s = b @ CHR ''.'' # c"
    using noat(1) by (rule domain_part_append)
  moreover have "CHR ''.'' \<in> set (butlast (tl (b @ CHR ''.'' # c)))"
    using ne(2,3) by (rule inner_dot)
  ultimately show ?thesis
    using ne(1) by (simp add: email_shape_def)
qed

lemma split_at_first:
  "count_list s (CHR ''@'') = 1 \<Longrightarrow>
     s = local_part s @ CHR ''@'' # domain_part s \<and> CHR ''@'' \<notin> set (domain_part s)"
  by (induction s) (auto simp: local_part_def domain_part_def count_list_0_iff split: if_splits)

lemma local_part_no_at: "CHR ''@'' \<notin> set (local_part s)"
  by (auto simp: local_part_def dest: set_takeWhileD)

lemma parts_of_email_shape:
  assumes "email_shape s"
  shows "\<exists>a b c. s = a @ CHR ''@'' # b @ CHR ''.'' # c \<and> a \<noteq> [] \<and> b \<noteq> [] \<and> c \<noteq> [] \<and>
           (\<forall>x\<in>set a. not_at_space x) \<and> (\<forall>x\<in>set b. not_at_space x) \<and>
           (\<forall>x\<in>set c. not_at_space x)"
proof -
  define a where "a = local_part s"
  define d where "d = domain_part s"
  from assms have one: "count_list s (CHR ''@'') = 1" and a: "a \<noteq> []"
    and sp: "\<forall>x\<in>set s. \<not> py_isspace x" and dot: "CHR ''.'' \<in> set (butlast (tl d))"
    by (simp_all add: email_shape_def a_def d_def)
  from one have s: "s = a @ CHR ''@'' # d" and noat_d: "CHR ''@'' \<notin> set d"
    unfolding a_def d_def using split_at_first by blast+
  from dot obtain m1 m2 where m: "butlast (tl d) = m1 @ CHR ''.'' # m2"
    by (auto simp: in_set_conv_decomp)
  then have "tl d \<noteq> []" by auto
  then have t: "tl d = butlast (tl d) @ [last (tl d)]" by simp
  from \<open>tl d \<noteq> []\<close> have "d \<noteq> []" by auto
  then have "d = hd d # tl d" by simp
  with t m have "d = (hd d # m1) @ CHR ''.'' # (m2 @ [last (tl d)])"
    by simp
  then obtain b c where d: "d = b @ CHR ''.'' # c" and bc: "b \<noteq> []" "c \<noteq> []"
    by blast
  have noat_a: "CHR ''@'' \<notin> set a"
    unfolding a_def by (rule local_part_no_at)
  have sbc: "s = a @ CHR ''@'' # b @ CHR ''.'' # c"
    unfolding s d ..
  from sp have "\<forall>x\<in>set a. \<not> py_isspace x" "\<forall>x\<in>set d. \<not> py_isspace x"
    unfolding s by (simp_all add: ball_Un)
  with noat_a noat_d have "\<forall>x\<in>set a. not_at_space x" "\<forall>x\<in>set d. not_at_space x"
    by (simp_all add: all_not_at_space)
  then have "\<forall>x\<in>set a. not_at_space x" "\<forall>x\<in>set b. not_at_space x"
    "\<forall>x\<in>set c. not_at_space x"
    unfolding d by (simp_all add: ball_Un)
  with sbc a bc show ?thesis
    by blast
qed

lemma email_shape_nonempty_last:
  assumes "email_shape s"
  shows "s \<noteq> [] \<and> last s \<noteq> CHR 0x0A"
proof -
  from assms have "\<forall>x\<in>set s. \<not> py_isspace x" and "local_part s \<noteq> []"
    by (simp_all add: email_shape_def)
  then have "s \<noteq> []" by (auto simp: local_part_def)
  moreover have "last s \<in> set s" using \<open>s \<noteq> []\<close> by (rule last_in_set)
  ultimately show ?thesis
    using \<open>\<forall>x\<in>set s. \<not> py_isspace x\<close> space_newline by metis
qed

lemma is_email_iff:
  "is_email s \<longleftrightarrow> email_shape s \<or> (\<exists>t. s = t @ [CHR 0x0A] \<and> email_shape t)"
proof
  assume "is_email s"
  then obtain a b c t where s: "s = a @ CHR ''@'' # b @ CHR ''.'' # c @ t"
    and ne: "a \<noteq> []" "b \<noteq> []" "c \<noteq> []"
    and cl: "\<forall>x\<in>set a. not_at_space x" "\<forall>x\<in>set b. not_at_space x" "\<forall>x\<in>set c. not_at_space x"
    and t: "t = [] \<or> t = [CHR 0x0A]"
    unfolding is_email_decompose by blast
  have sh: "email_shape (a @ CHR ''@'' # b @ CHR ''.'' # c)"
    using ne cl by (rule email_shape_of_parts)
  from t show "email_shape s \<or> (\<exists>t. s = t @ [CHR 0x0A] \<and> email_shape t)"
  proof
    assume "t = []"
    with s sh show ?thesis by simp
  next
    assume "t = [CHR 0x0A]"
    with s have "s = (a @ CHR ''@'' # b @ CHR ''.'' # c) @ [CHR 0x0A]" by simp
    with sh show ?thesis by blast
  qed
next
  assume "email_shape s \<or> (\<exists>t. s = t @ [CHR 0x0A] \<and> email_shape t)"
  then obtain u t where s: "s = u @ t" and t: "t = [] \<or> t = [CHR 0x0A]" and "email_shape u"
    by (metis append_Nil2)
  then obtain a b c where "u = a @ CHR ''@'' # b @ CHR ''.'' # c" "a \<noteq> []" "b \<noteq> []" "c \<noteq> []"
    "\<forall>x\<in>set a. not_at_space x" "\<forall>x\<in>set b. not_at_space x" "\<forall>x\<in>set c. not_at_space x"
    using parts_of_email_shape by blast
  with s t show "is_email s"
    unfolding is_email_decompose by auto
qed

section \<open>Facts about the floating-point operations\<close>

lemma pow2_powi: "pow2 e = 2 powi e"
  by (simp add: pow2_def power_int_def power_inverse [symmetric] inverse_eq_divide power_one_over)

lemma pow2_pos: "0 < pow2 e"
  by (simp add: pow2_powi)

lemma pow2_add: "pow2 (a + b) = pow2 a * pow2 b"
  by (simp add: pow2_powi power_int_add)

lemma pow2_strict_mono: "a < b \<Longrightarrow> pow2 a < pow2 b"
  by (simp add: pow2_powi power_int_strict_increasing)

lemma pow2_mono: "a \<le> b \<Longrightarrow> pow2 a \<le> pow2 b"
  by (simp add: pow2_powi power_int_increasing)

lemma pow2_nat: "pow2 (int k) = 2 ^ k"
  by (simp add: pow2_def)

lemma pow2_neg_nat: "pow2 (- int k) = 1 / 2 ^ k"
  by (auto simp: pow2_def)

lemma bit_length_bounds:
  "0 < n \<Longrightarrow> \<exists>k. bit_length n = int k + 1 \<and> 2 ^ k \<le> n \<and> n < 2 ^ (k + 1)"
proof (induction n rule: bit_length.induct)
  case (1 n)
  show ?case
  proof (cases "n div 2 = 0")
    case True
    with \<open>0 < n\<close> have "n = 1" by presburger
    then have "bit_length n = int 0 + 1 \<and> 2 ^ 0 \<le> n \<and> n < 2 ^ (0 + 1)"
      by (simp add: bit_length.simps [of 1] bit_length.simps [of 0])
    then show ?thesis by blast
  next
    case False
    with \<open>0 < n\<close> have pos: "0 < n div 2" by presburger
    with 1 obtain b where b: "bit_length (n div 2) = int b + 1"
      and lo: "2 ^ b \<le> n div 2" and hi: "n div 2 < 2 ^ (b + 1)"
      by auto
    have bl: "bit_length n = int (b + 1) + 1"
      using \<open>0 < n\<close> b by (subst bit_length.simps) simp
    from lo have "2 * 2 ^ b \<le> n" by linarith
    then have l: "2 ^ (b + 1) \<le> n" by simp
    from hi have "n < 2 * 2 ^ (b + 1)" by linarith
    then have h: "n < 2 ^ (b + 1 + 1)" by simp
    from bl l h show ?thesis by blast
  qed
qed

lemma of_int_pow2_le: "2 ^ k \<le> n \<Longrightarrow> (2::rat) ^ k \<le> of_int n"
  by (metis of_int_le_iff of_int_numeral of_int_power)

lemma of_int_le_pow2: "n \<le> 2 ^ k \<Longrightarrow> (of_int n :: rat) \<le> 2 ^ k"
  by (metis of_int_le_iff of_int_numeral of_int_power)

lemma floorlog2_bounds:
  assumes "0 < q"
  shows "pow2 (floorlog2 q) \<le> q \<and> q < pow2 (floorlog2 q + 1)"
proof (cases "1 \<le> q")
  case True
  define n where "n = \<lfloor>q\<rfloor>"
  from True have n: "0 < n" by (simp add: n_def)
  from bit_length_bounds [OF n] obtain k where bl: "bit_length n = int k + 1"
    and lo: "2 ^ k \<le> n" and hi: "n < 2 ^ (k + 1)"
    by blast
  have fl: "floorlog2 q = int k"
    using True bl by (simp add: floorlog2_def n_def)
  have "of_int n \<le> q" "q < of_int (n + 1)"
    unfolding n_def by linarith+
  moreover from lo have "(2::rat) ^ k \<le> of_int n"
    by (rule of_int_pow2_le)
  moreover from hi have "n + 1 \<le> 2 ^ (k + 1)" by simp
  then have "(of_int (n + 1) :: rat) \<le> 2 ^ (k + 1)"
    by (rule of_int_le_pow2)
  ultimately have "2 ^ k \<le> q" "q < 2 ^ (k + 1)"
    by linarith+
  moreover have "pow2 (int k + 1) = 2 ^ (k + 1)"
    by (simp add: pow2_def nat_add_distrib)
  ultimately show ?thesis
    unfolding fl using pow2_nat [of k] by simp
next
  case False
  define c where "c = \<lceil>1 / q\<rceil>"
  from False assms have "1 < 1 / q" by simp
  then have c2: "2 \<le> c" unfolding c_def by linarith
  then have "0 < c - 1" by simp
  from bit_length_bounds [OF this] obtain k where bl: "bit_length (c - 1) = int k + 1"
    and lo: "2 ^ k \<le> c - 1" and hi: "c - 1 < 2 ^ (k + 1)"
    by blast
  have fl: "floorlog2 q = - int (k + 1)"
    using False bl by (simp add: floorlog2_def c_def)
  have "of_int (c - 1) < 1 / q" "1 / q \<le> of_int c"
    unfolding c_def by linarith+
  moreover from lo have "(2::rat) ^ k \<le> of_int (c - 1)"
    by (rule of_int_pow2_le)
  moreover from hi have "c \<le> 2 ^ (k + 1)" by simp
  then have "(of_int c :: rat) \<le> 2 ^ (k + 1)"
    by (rule of_int_le_pow2)
  ultimately have a: "2 ^ k < 1 / q" and b: "1 / q \<le> 2 ^ (k + 1)"
    by linarith+
  from a assms have "q < 1 / 2 ^ k"
    by (simp add: field_simps)
  moreover from b assms have "1 / 2 ^ (k + 1) \<le> q"
    by (simp add: field_simps)
  moreover have "floorlog2 q + 1 = - int k"
    using fl by simp
  ultimately show ?thesis
    using fl pow2_neg_nat [of k] pow2_neg_nat [of "k + 1"] by simp
qed

lemma floorlog2_unique:
  assumes "0 < q" "pow2 k \<le> q" "q < pow2 (k + 1)"
  shows "floorlog2 q = k"
proof -
  from floorlog2_bounds [OF assms(1)] have lo: "pow2 (floorlog2 q) \<le> q"
    and hi: "q < pow2 (floorlog2 q + 1)"
    by simp_all
  have "\<not> k + 1 \<le> floorlog2 q"
    using pow2_mono [of "k + 1" "floorlog2 q"] lo assms(3) by auto
  moreover have "\<not> floorlog2 q + 1 \<le> k"
    using pow2_mono [of "floorlog2 q + 1" k] hi assms(2) by auto
  ultimately show ?thesis by simp
qed

lemma round_half_even_of_int: "round_half_even (of_int z) = z"
  by (simp add: round_half_even_def)


lemma double_round_pos:
  assumes "0 < q" "pow2 k \<le> q" "q < pow2 (k + 1)"
  shows "double_round q =
     (let e = max k (- 1022) - 52; m = round_half_even (q / pow2 e); v = of_int m * pow2 e
      in if pow2 1024 \<le> v then PosInf else if m = 0 then Finite 0 else Finite v)"
  using assms by (simp add: double_round_def floorlog2_unique Let_def)

lemma pow2_diff: "pow2 (a - b) = pow2 a / pow2 b"
  using pow2_add [of "a - b" b] pow2_pos [of b] by (simp add: field_simps)

lemma double_round_int_exact:
  assumes "0 < n" "n < 2 ^ 53"
  shows "double_round (of_int n) = Finite (of_int n)"
proof -
  let ?q = "of_int n :: rat"
  define k where "k = floorlog2 ?q"
  from assms have q: "0 < ?q" by simp
  from floorlog2_bounds [OF q] have lo: "pow2 k \<le> ?q" and hi: "?q < pow2 (k + 1)"
    by (simp_all add: k_def)
  have "?q < pow2 53"
    using assms(2) of_int_le_pow2 [of "n + 1" 53] by (simp add: pow2_def)
  with lo have "pow2 k < pow2 53" by simp
  then have k53: "k < 53"
    using pow2_mono [of 53 k] by (cases "k < 53") auto
  have "pow2 0 \<le> ?q" using assms(1) by (simp add: pow2_def)
  with hi have "pow2 0 < pow2 (k + 1)" by simp
  then have k0: "0 \<le> k"
    using pow2_mono [of "k + 1" 0] by (cases "0 \<le> k") auto
  define j where "j = nat (52 - k)"
  have e: "max k (- 1022) - 52 = - int j"
    using k0 k53 by (simp add: j_def)
  have div: "?q / pow2 (- int j) = of_int (n * 2 ^ j)"
    by (simp add: pow2_neg_nat)
  have m: "round_half_even (?q / pow2 (- int j)) = n * 2 ^ j"
    unfolding div by (rule round_half_even_of_int)
  have v: "of_int (n * 2 ^ j) * pow2 (- int j) = ?q"
    by (simp add: pow2_neg_nat)
  have "\<not> pow2 1024 \<le> ?q"
    using \<open>?q < pow2 53\<close> pow2_mono [of 53 1024] by simp
  moreover have "n * 2 ^ j \<noteq> 0"
    using assms(1) by simp
  ultimately show ?thesis
    unfolding double_round_pos [OF q lo hi] Let_def e m v by simp
qed

lemma py_round_of_int:
  "py_round (Finite (of_int n)) ndigits = (if n = 0 then Finite 0 else double_round (of_int n))"
proof -
  have "(of_int n :: rat) * 10 ^ ndigits = of_int (n * 10 ^ ndigits)"
    by simp
  then have "round_half_even (of_int n * 10 ^ ndigits) = n * 10 ^ ndigits"
    by (simp only: round_half_even_of_int)
  then show ?thesis
    by (simp add: Let_def)
qed

lemma py_round_small_int:
  assumes "q = of_int n" "0 < n" "n < 2 ^ 53"
  shows "py_round (Finite q) ndigits = Finite q"
  unfolding assms(1) py_round_of_int using assms(2,3) by (simp add: double_round_int_exact)

lemma float_of_small_int:
  assumes "q = of_int n" "0 < n" "n < 2 ^ 53"
  shows "float_of_int n = Inr (Finite q)"
  using assms by (simp add: float_of_int_def double_round_int_exact)

lemma floor_numeral_div: "\<lfloor>(numeral a :: rat) / numeral b\<rfloor> = numeral a div numeral b"
  using floor_divide_of_int_eq [of "numeral a" "numeral b", where ?'a = rat] by simp



lemma float_literal_0_02: "float_literal (2 / 100) = Finite (5764607523034235 / 2 ^ 58)"
proof -
  have "double_round (2 / 100) =
     (let e = max (- 6) (- 1022) - 52; m = round_half_even ((2 / 100) / pow2 e);
          v = of_int m * pow2 e
      in if pow2 1024 \<le> v then PosInf else if m = 0 then Finite 0 else Finite v)"
    by (rule double_round_pos) (simp_all add: pow2_def)
  also have "\<dots> = Finite (5764607523034235 / 2 ^ 58)"
    by (simp add: Let_def pow2_def round_half_even_def floor_numeral_div)
  finally show ?thesis
    by (simp add: float_literal_def)
qed

lemma fee_of_100: "float_mul (Finite 100) (float_literal (2 / 100)) = Finite 2"
proof -
  let ?q = "100 * (5764607523034235 / 2 ^ 58) :: rat"
  have "double_round ?q =
     (let e = max 1 (- 1022) - 52; m = round_half_even (?q / pow2 e); v = of_int m * pow2 e
      in if pow2 1024 \<le> v then PosInf else if m = 0 then Finite 0 else Finite v)"
    by (rule double_round_pos) (simp_all add: pow2_def)
  also have "\<dots> = Finite 2"
    by (simp add: Let_def pow2_def round_half_even_def floor_numeral_div)
  finally have a: "double_round ?q = Finite 2" .
  have b: "float_mul (Finite 100) (Finite (5764607523034235 / 2 ^ 58)) = double_round ?q"
    by (simp add: float_mul_def)
  show ?thesis
    unfolding float_literal_0_02 b a ..
qed

lemma net_of_100: "float_sub (Finite 100) (Finite 2) = Finite 98"
  using double_round_int_exact [of 98] by (simp add: float_sub_def)

lemma payment_of_100:
  "py_float (JInt 100) = Inr (Finite 100)"
  "py_round (Finite 100) 3 = Finite 100"
  "py_round (float_mul (Finite 100) (float_literal (2 / 100))) 3 = Finite 2"
  "py_round (float_sub (Finite 100) (Finite 2)) 3 = Finite 98"
proof -
  show "py_float (JInt 100) = Inr (Finite 100)"
    unfolding py_float.simps by (rule float_of_small_int) simp_all
  show "py_round (Finite 100) 3 = Finite 100"
    by (rule py_round_small_int [where n = 100]) simp_all
  show "py_round (float_mul (Finite 100) (float_literal (2 / 100))) 3 = Finite 2"
    unfolding fee_of_100 by (rule py_round_small_int [where n = 2]) simp_all
  show "py_round (float_sub (Finite 100) (Finite 2)) 3 = Finite 98"
    unfolding net_of_100 by (rule py_round_small_int [where n = 98]) simp_all
qed


section \<open>The envelope invariant\<close>

text \<open>
  A value that the handler returns is a dictionary with exactly the keys \<^verbatim>\<open>status\<close>,
  \<^verbatim>\<open>message\<close>, \<^verbatim>\<open>data\<close> and \<^verbatim>\<open>errors\<close>, in this order; its status is \<^verbatim>\<open>"ok"\<close> or
  \<^verbatim>\<open>"error"\<close>, its message a string and its errors a list of strings; and the status is
  \<^verbatim>\<open>"ok"\<close> exactly when the list of errors is empty, which is exactly when the data is not
  null.
\<close>

lemma handler_returned_envelope:
  assumes "handler repr event context = Inr r"
  shows "is_dict r \<and>
         keys r = [''status'', ''message'', ''data'', ''errors''] \<and>
         (field ''status'' r = Some (JStr ''ok'') \<or>
          field ''status'' r = Some (JStr ''error'')) \<and>
         (\<exists>m. field ''message'' r = Some (JStr m)) \<and>
         (\<exists>msgs. field ''errors'' r = Some (JList (map JStr msgs))) \<and>
         (field ''status'' r = Some (JStr ''ok'') \<longleftrightarrow> field ''errors'' r = Some (JList [])) \<and>
         (field ''errors'' r = Some (JList []) \<longleftrightarrow> field ''data'' r \<noteq> Some JNull) \<and>
         (field ''status'' r = Some (JStr ''ok'') \<longleftrightarrow> field ''data'' r \<noteq> Some JNull) \<and>
         (field ''status'' r = Some (JStr ''error'') \<longleftrightarrow> field ''data'' r = Some JNull) \<and>
         (field ''data'' r = Some JNull \<longleftrightarrow> field ''errors'' r \<noteq> Some (JList []))"
proof -
  from assms consider msgs where "msgs \<noteq> []" "r = err msgs" | m d where "r = ok m d"
    using handler_shape by blast
  then show ?thesis
  proof cases
    case 1
    then show ?thesis
      by (auto simp: keys_err field_err) (simp add: err_def)
  next
    case 2
    then show ?thesis
      by (auto simp: keys_ok field_ok intro: exI [of _ "[]"]) (simp add: ok_def)
  qed
qed

section \<open>Storage class of an upload\<close>

lemma signup_returns:
  "has_type kvs ''USER_SIGNUP'' \<Longrightarrow>
     \<exists>r. handler repr (JDict kvs) context = Inr r \<and> errors_of r = signup_errors kvs"
  by (simp add: handler_signup handle_user_signup_eq errors_of_err errors_of_ok)

lemma upload_returns:
  "has_type kvs ''FILE_UPLOAD'' \<Longrightarrow>
     \<exists>r. handler repr (JDict kvs) context = Inr r \<and> errors_of r = file_upload_errors kvs"
  by (simp add: handler_upload handle_file_upload_eq errors_of_err errors_of_ok)

text \<open>
  Claim C4. A \<^verbatim>\<open>FILE_UPLOAD\<close> event that passes validation gets the success envelope
  \<^verbatim>\<open>"Upload processed"\<close>, whose data carry \<^verbatim>\<open>size_bytes\<close> as it came and a storage class
  chosen by that integer \<open>n\<close>: \<^verbatim>\<open>STANDARD\<close> below 1,000,000, \<^verbatim>\<open>STANDARD_IA\<close> from 1,000,000
  and below 50,000,000, \<^verbatim>\<open>GLACIER\<close> from 50,000,000. So 999,999 and 49,999,999 fall in the
  lower tier and 1,000,000 and 50,000,000 in the higher.
\<close>

theorem file_upload_storage_class:
  assumes "has_type kvs ''FILE_UPLOAD''" and "file_upload_errors kvs = []"
  shows "\<exists>d n. handler repr (JDict kvs) context = Inr (ok ''Upload processed'' d) \<and>
           is_int (get kvs ''size_bytes'') \<and> n = int_val (get kvs ''size_bytes'') \<and>
           map_of d ''size_bytes'' = Some (get kvs ''size_bytes'') \<and>
           (n < 1000000 \<longrightarrow> map_of d ''storage_class'' = Some (JStr ''STANDARD'')) \<and>
           (1000000 \<le> n \<and> n < 50000000 \<longrightarrow>
              map_of d ''storage_class'' = Some (JStr ''STANDARD_IA'')) \<and>
           (50000000 \<le> n \<longrightarrow> map_of d ''storage_class'' = Some (JStr ''GLACIER'')) \<and>
           (n = 999999 \<longrightarrow> map_of d ''storage_class'' = Some (JStr ''STANDARD'')) \<and>
           (n = 1000000 \<longrightarrow> map_of d ''storage_class'' = Some (JStr ''STANDARD_IA'')) \<and>
           (n = 49999999 \<longrightarrow> map_of d ''storage_class'' = Some (JStr ''STANDARD_IA'')) \<and>
           (n = 50000000 \<longrightarrow> map_of d ''storage_class'' = Some (JStr ''GLACIER''))"
proof -
  define n where "n = int_val (get kvs ''size_bytes'')"
  define d where "d =
     [(''file_name'', JStr (py_strip (str_val (get kvs ''file_name'')))),
      (''size_bytes'', get kvs ''size_bytes''),
      (''bucket'', lower_if_str (get kvs ''bucket'')),
      (''uploader'', lower_if_str (get kvs ''uploader'')),
      (''storage_class'', JStr (storage_class_of n))]"
  have h: "handler repr (JDict kvs) context = Inr (ok ''Upload processed'' d)"
    using assms by (simp add: handler_upload handle_file_upload_eq d_def n_def)
  have i: "is_int (get kvs ''size_bytes'')"
    using assms(2) by (simp add: file_upload_errors_def split: if_splits)
  have sb: "map_of d ''size_bytes'' = Some (get kvs ''size_bytes'')"
    by (simp add: d_def)
  have sc: "map_of d ''storage_class'' = Some (JStr (storage_class_of n))"
    by (simp add: d_def)
  have "n < 1000000 \<longrightarrow> storage_class_of n = ''STANDARD''"
    and "1000000 \<le> n \<and> n < 50000000 \<longrightarrow> storage_class_of n = ''STANDARD_IA''"
    and "50000000 \<le> n \<longrightarrow> storage_class_of n = ''GLACIER''"
    by (simp_all add: storage_class_of_def)
  with h i sb sc n_def show ?thesis
    by (intro exI [of _ d] exI [of _ n]) (simp add: storage_class_of_def)
qed

theorem file_upload_storage_class_witness:
  "\<exists>d. handler (\<lambda>v. [])
          (JDict [(''type'', JStr ''FILE_UPLOAD''), (''file_name'', JStr '' a.txt ''),
                  (''size_bytes'', JInt 1000000), (''bucket'', JStr ''B''),
                  (''uploader'', JStr ''U@X.com'')]) None = Inr (ok ''Upload processed'' d) \<and>
       map_of d ''storage_class'' = Some (JStr ''STANDARD_IA'')"
proof -
  let ?kvs = "[(''type'', JStr ''FILE_UPLOAD''), (''file_name'', JStr '' a.txt ''),
               (''size_bytes'', JInt 1000000), (''bucket'', JStr ''B''),
               (''uploader'', JStr ''U@X.com'')]"
  have t: "has_type ?kvs ''FILE_UPLOAD''"
    by (simp add: has_type_def)
  have e: "is_email ''U@X.com''"
    by code_simp
  have v: "file_upload_errors ?kvs = []"
    by (simp add: file_upload_errors_def get_def e)
  have n: "int_val (get ?kvs ''size_bytes'') = 1000000"
    by (simp add: get_def)
  from file_upload_storage_class [OF t v, of "\<lambda>v. []" None] n show ?thesis
    by auto
qed

section \<open>Errors of an upload\<close>

text \<open>
  Claim C5. A \<^verbatim>\<open>FILE_UPLOAD\<close> event that fails validation gets the error envelope whose
  messages are those of \<open>file_upload_errors\<close>: every check that fails contributes its
  message, in the order file name type, size type, size not negative (of a size that is an
  integer), bucket type, uploader type, uploader e-mail format (of an uploader that is a
  string).
\<close>

theorem file_upload_error_order:
  assumes "has_type kvs ''FILE_UPLOAD''" and "file_upload_errors kvs \<noteq> []"
  shows "handler repr (JDict kvs) context = Inr (err (file_upload_errors kvs)) \<and>
         errors_of (err (file_upload_errors kvs)) = file_upload_errors kvs"
  using assms by (simp add: handler_upload handle_file_upload_eq errors_of_err)

theorem file_upload_error_order_witness:
  "handler (\<lambda>v. [])
     (JDict [(''type'', JStr ''FILE_UPLOAD''), (''size_bytes'', JInt (- 1)),
             (''bucket'', JInt 3), (''uploader'', JStr ''nobody'')]) None =
   Inr (err [''file_name must be a string'', ''size_bytes must be >= 0'',
             ''bucket must be a string'', ''Invalid uploader email''])"
proof -
  let ?kvs = "[(''type'', JStr ''FILE_UPLOAD''), (''size_bytes'', JInt (- 1)),
               (''bucket'', JInt 3), (''uploader'', JStr ''nobody'')]"
  have t: "has_type ?kvs ''FILE_UPLOAD''"
    by (simp add: has_type_def)
  have e: "\<not> is_email ''nobody''"
    by code_simp
  have v: "file_upload_errors ?kvs = [''file_name must be a string'', ''size_bytes must be >= 0'',
             ''bucket must be a string'', ''Invalid uploader email'']"
    by (simp add: file_upload_errors_def get_def e)
  then have "file_upload_errors ?kvs \<noteq> []"
    by simp
  from file_upload_error_order [OF t this, of "\<lambda>v. []" None] v show ?thesis
    by simp
qed

section \<open>The e-mail check\<close>

lemma signup_email_message:
  "''Invalid email format'' \<in> set (signup_errors kvs) \<longleftrightarrow>
     str_and (get kvs ''email'') (\<lambda>s. \<not> is_email s)"
  by (simp add: signup_errors_def)

lemma upload_email_message:
  "''Invalid uploader email'' \<in> set (file_upload_errors kvs) \<longleftrightarrow>
     str_and (get kvs ''uploader'') (\<lambda>s. \<not> is_email s)"
  by (simp add: file_upload_errors_def)

text \<open>
  Claim C8 says that the check accepts exactly the strings with one \<^verbatim>\<open>@\<close>, text before and
  after it, no whitespace and a \<^verbatim>\<open>.\<close> in the domain. The pattern asks for more: a \<^verbatim>\<open>.\<close>
  with at least one character of the domain on each side. \<^verbatim>\<open>a@.com\<close> fits the words of the
  claim and is rejected.
\<close>

theorem is_email_prose_counterexample:
  "prose_email ''a@.com'' \<and> \<not> is_email ''a@.com''"
  by code_simp

text \<open>
  Claim C8, amended. For a string that does not end in a newline, the check accepts it
  exactly when it has one \<^verbatim>\<open>@\<close>, text before it, no whitespace anywhere, and in the domain
  a \<^verbatim>\<open>.\<close> that is neither the first nor the last character of the domain. A signup whose
  e-mail is such a string, and an upload whose uploader is, get the format error of that
  field exactly when the string is not of this shape.
\<close>

theorem is_email_accepts:
  assumes "s = [] \<or> last s \<noteq> CHR 0x0A"
  shows "(is_email s \<longleftrightarrow> email_shape s) \<and>
    (has_type kvs ''USER_SIGNUP'' \<and> get kvs ''email'' = JStr s \<longrightarrow>
       (\<exists>r. handler repr (JDict kvs) context = Inr r \<and>
            (''Invalid email format'' \<in> set (errors_of r) \<longleftrightarrow> \<not> email_shape s))) \<and>
    (has_type kvs' ''FILE_UPLOAD'' \<and> get kvs' ''uploader'' = JStr s \<longrightarrow>
       (\<exists>r. handler repr (JDict kvs') context = Inr r \<and>
            (''Invalid uploader email'' \<in> set (errors_of r) \<longleftrightarrow> \<not> email_shape s)))"
proof -
  from assms have e: "is_email s \<longleftrightarrow> email_shape s"
    using email_shape_nonempty_last by (auto simp: is_email_iff)
  have "\<exists>r. handler repr (JDict kvs) context = Inr r \<and>
            (''Invalid email format'' \<in> set (errors_of r) \<longleftrightarrow> \<not> email_shape s)"
    if "has_type kvs ''USER_SIGNUP''" "get kvs ''email'' = JStr s"
    using signup_returns [OF that(1), of repr "context"] that(2) e
    by (auto simp: signup_email_message)
  moreover have "\<exists>r. handler repr (JDict kvs') context = Inr r \<and>
            (''Invalid uploader email'' \<in> set (errors_of r) \<longleftrightarrow> \<not> email_shape s)"
    if "has_type kvs' ''FILE_UPLOAD''" "get kvs' ''uploader'' = JStr s"
    using upload_returns [OF that(1), of repr "context"] that(2) e
    by (auto simp: upload_email_message)
  ultimately show ?thesis
    using e by blast
qed

theorem is_email_accepts_witness:
  "(''a@b.co'' = [] \<or> last ''a@b.co'' \<noteq> CHR 0x0A) \<and> is_email ''a@b.co'' \<and> email_shape ''a@b.co'' \<and>
   (\<exists>r. handler (\<lambda>v. []) (JDict [(''type'', JStr ''USER_SIGNUP''), (''email'', JStr ''a@b.co'')]) None
          = Inr r \<and> ''Invalid email format'' \<notin> set (errors_of r))"
proof -
  have h: "''a@b.co'' = [] \<or> last ''a@b.co'' \<noteq> CHR 0x0A"
    by simp
  have sh: "email_shape ''a@b.co''"
    by code_simp
  have t: "has_type [(''type'', JStr ''USER_SIGNUP''), (''email'', JStr ''a@b.co'')] ''USER_SIGNUP''"
    and g: "get [(''type'', JStr ''USER_SIGNUP''), (''email'', JStr ''a@b.co'')] ''email'' = JStr ''a@b.co''"
    by (simp_all add: has_type_def get_def)
  from is_email_accepts [OF h, of "[(''type'', JStr ''USER_SIGNUP''), (''email'', JStr ''a@b.co'')]"
      "\<lambda>v. []" None] h sh t g
  show ?thesis by simp
qed

text \<open>
  The anchor \<^verbatim>\<open>$\<close> also holds before a final newline, so the pattern accepts an address
  followed by one newline.
\<close>

lemma is_email_trailing_newline: "is_email (''a@b.co'' @ [CHR 0x0A])"
  by code_simp

section \<open>A successful signup\<close>

lemma signup_errors_nil:
  assumes "is_int (get kvs ''user_id'')" "get kvs ''email'' = JStr e" "is_email e"
    "get kvs ''plan'' = JStr p" "py_lower p \<in> {''free'', ''pro'', ''edu''}"
  shows "signup_errors kvs = []"
  using assms by (simp add: signup_errors_def)


text \<open>
  Claim C7. A \<^verbatim>\<open>USER_SIGNUP\<close> event passes validation when its user id is an integer, its
  e-mail a string that the pattern accepts and its plan a string that is \<^verbatim>\<open>free\<close>, \<^verbatim>\<open>pro\<close>
  or \<^verbatim>\<open>edu\<close> once lower-cased. It then gets the success envelope \<^verbatim>\<open>"Signup processed"\<close>
  with the user id as it came, the e-mail and the plan lower-cased, and the subject
  \<^verbatim>\<open>Welcome to the {plan} plan!\<close> built from the lower-cased plan. The event with user id 7,
  e-mail \<^verbatim>\<open>A@B.com\<close> and plan \<^verbatim>\<open>PRO\<close> gets \<^verbatim>\<open>a@b.com\<close>, \<^verbatim>\<open>pro\<close> and
  \<^verbatim>\<open>Welcome to the pro plan!\<close>.
\<close>

theorem signup_success:
  "(\<forall>kvs e p.
      has_type kvs ''USER_SIGNUP'' \<and> is_int (get kvs ''user_id'') \<and>
      get kvs ''email'' = JStr e \<and> is_email e \<and>
      get kvs ''plan'' = JStr p \<and> py_lower p \<in> {''free'', ''pro'', ''edu''} \<longrightarrow>
      handler repr (JDict kvs) context =
        Inr (ok ''Signup processed''
              [(''user_id'', get kvs ''user_id''),
               (''email'', JStr (py_lower e)),
               (''plan'', JStr (py_lower p)),
               (''welcome_email_subject'',
                  JStr (''Welcome to the '' @ py_lower p @ '' plan!''))])) \<and>
   handler repr
     (JDict [(''type'', JStr ''USER_SIGNUP''), (''user_id'', JInt 7),
             (''email'', JStr ''A@B.com''), (''plan'', JStr ''PRO'')]) context =
     Inr (ok ''Signup processed''
           [(''user_id'', JInt 7),
            (''email'', JStr ''a@b.com''),
            (''plan'', JStr ''pro''),
            (''welcome_email_subject'', JStr ''Welcome to the pro plan!'')])"
proof (intro conjI allI impI)
  fix kvs e p
  assume a: "has_type kvs ''USER_SIGNUP'' \<and> is_int (get kvs ''user_id'') \<and>
      get kvs ''email'' = JStr e \<and> is_email e \<and>
      get kvs ''plan'' = JStr p \<and> py_lower p \<in> {''free'', ''pro'', ''edu''}"
  then have "signup_errors kvs = []"
    by (intro signup_errors_nil [of kvs e p]) simp_all
  with a show "handler repr (JDict kvs) context =
        Inr (ok ''Signup processed''
              [(''user_id'', get kvs ''user_id''),
               (''email'', JStr (py_lower e)),
               (''plan'', JStr (py_lower p)),
               (''welcome_email_subject'',
                  JStr (''Welcome to the '' @ py_lower p @ '' plan!''))])"
    by (simp add: handler_signup handle_user_signup_eq)
next
  let ?kvs = "[(''type'', JStr ''USER_SIGNUP''), (''user_id'', JInt 7),
             (''email'', JStr ''A@B.com''), (''plan'', JStr ''PRO'')]"
  have t: "has_type ?kvs ''USER_SIGNUP''"
    by (simp add: has_type_def)
  have e: "is_email ''A@B.com''" and l: "py_lower ''A@B.com'' = ''a@b.com''"
    and p: "py_lower ''PRO'' = ''pro''"
    by code_simp+
  have "signup_errors ?kvs = []"
    by (simp add: signup_errors_def get_def e p)
  with t show "handler repr (JDict ?kvs) context =
     Inr (ok ''Signup processed''
           [(''user_id'', JInt 7),
            (''email'', JStr ''a@b.com''),
            (''plan'', JStr ''pro''),
            (''welcome_email_subject'', JStr ''Welcome to the pro plan!'')])"
    by (simp add: handler_signup handle_user_signup_eq get_def l p)
qed


theorem signup_success_witness:
  "handler (\<lambda>v. [])
     (JDict [(''type'', JStr ''USER_SIGNUP''), (''user_id'', JBool True),
             (''email'', JStr ''Jo@Ex.org''), (''plan'', JStr ''Edu'')]) None =
     Inr (ok ''Signup processed''
           [(''user_id'', JBool True),
            (''email'', JStr ''jo@ex.org''),
            (''plan'', JStr ''edu''),
            (''welcome_email_subject'', JStr ''Welcome to the edu plan!'')])"
proof -
  let ?kvs = "[(''type'', JStr ''USER_SIGNUP''), (''user_id'', JBool True),
             (''email'', JStr ''Jo@Ex.org''), (''plan'', JStr ''Edu'')]"
  have e: "is_email ''Jo@Ex.org''" and l: "py_lower ''Jo@Ex.org'' = ''jo@ex.org''"
    and p: "py_lower ''Edu'' = ''edu''"
    by code_simp+
  have "has_type ?kvs ''USER_SIGNUP'' \<and> is_int (get ?kvs ''user_id'') \<and>
      get ?kvs ''email'' = JStr ''Jo@Ex.org'' \<and> is_email ''Jo@Ex.org'' \<and>
      get ?kvs ''plan'' = JStr ''Edu'' \<and> py_lower ''Edu'' \<in> {''free'', ''pro'', ''edu''}"
    by (simp add: has_type_def get_def e p)
  with signup_success [of "\<lambda>v. []" None, THEN conjunct1, rule_format, of ?kvs "''Jo@Ex.org''" "''Edu''"]
  show ?thesis
    by (simp add: get_def l p)
qed

section \<open>Payments\<close>

lemma payment_returns:
  assumes "has_type kvs ''PAYMENT''" "handler repr (JDict kvs) context = Inr r"
  shows "errors_of r = payment_errors kvs"
  using assms
  by (auto simp: handler_payment handle_payment_eq errors_of_err errors_of_ok bind_def
      split: if_splits sum.splits)

lemma payment_rejected:
  assumes "has_type kvs ''PAYMENT''" "payment_errors kvs \<noteq> []"
  shows "handler repr (JDict kvs) context = Inr (err (payment_errors kvs))"
  using assms by (simp add: handler_payment handle_payment_eq)

lemma payment_accepted:
  assumes "has_type kvs ''PAYMENT''" "payment_errors kvs = []" "py_float (get kvs ''amount'') = Inr x"
  shows "handler repr (JDict kvs) context =
     Inr (ok ''Payment processed''
               [(''payment_id'', get kvs ''payment_id''),
                (''user_id'', get kvs ''user_id''),
                (''amount'', JFloat (py_round x 3)),
                (''currency'',
                   assigned (get kvs ''currency'') (upper_if_str (get kvs ''currency''))),
                (''fee'',
                   JFloat (py_round (float_mul (py_round x 3) (float_literal (2 / 100))) 3)),
                (''net_amount'',
                   JFloat (py_round (float_sub (py_round x 3)
                     (py_round (float_mul (py_round x 3) (float_literal (2 / 100))) 3)) 3))])"
  using assms by (simp add: handler_payment handle_payment_eq bind_Inr)


lemma payment_errors_nil:
  assumes "is_str (get kvs ''payment_id'')" "is_int (get kvs ''user_id'')"
    "is_number (get kvs ''amount'')" "\<not> number_and_le_zero (get kvs ''amount'')"
    "get kvs ''currency'' = JStr c" "py_upper c = points code"
    "code \<in> {''BHD'', ''USD'', ''EUR''}"
  shows "payment_errors kvs = []"
    and "assigned (get kvs ''currency'') (upper_if_str (get kvs ''currency'')) = JStr code"
  using assms by (auto simp: payment_errors_def text_of_points)


lemma upper_usd: "py_upper ''usd'' = points ''USD''"
  by code_simp

lemma payment_scenario:
  "handler repr
     (JDict [(''type'', JStr ''PAYMENT''), (''payment_id'', JStr ''p1''), (''user_id'', JInt 1),
             (''amount'', JInt 100), (''currency'', JStr ''usd'')]) context =
   Inr (ok ''Payment processed''
         [(''payment_id'', JStr ''p1''), (''user_id'', JInt 1), (''amount'', JFloat (Finite 100)),
          (''currency'', JStr ''USD''), (''fee'', JFloat (Finite 2)),
          (''net_amount'', JFloat (Finite 98))])"
proof -
  let ?kvs = "[(''type'', JStr ''PAYMENT''), (''payment_id'', JStr ''p1''), (''user_id'', JInt 1),
             (''amount'', JInt 100), (''currency'', JStr ''usd'')]"
  have t: "has_type ?kvs ''PAYMENT''"
    by (simp add: has_type_def)
  have g: "is_str (get ?kvs ''payment_id'')" "is_int (get ?kvs ''user_id'')"
    "is_number (get ?kvs ''amount'')" "\<not> number_and_le_zero (get ?kvs ''amount'')"
    "get ?kvs ''currency'' = JStr ''usd''"
    by (simp_all add: get_def)
  have m: "''USD'' \<in> {''BHD'', ''USD'', ''EUR''}"
    by simp
  note n = payment_errors_nil [OF g upper_usd m]
  have v: "payment_errors ?kvs = []"
    by (rule n(1))
  have c: "assigned (get ?kvs ''currency'') (upper_if_str (get ?kvs ''currency'')) = JStr ''USD''"
    by (rule n(2))
  have f: "py_float (get ?kvs ''amount'') = Inr (Finite 100)"
    using payment_of_100(1) by (simp add: get_def)
  show ?thesis
    unfolding payment_accepted [OF t v f] payment_of_100 c
    by (simp add: get_def)
qed









section \<open>Events on which the handler raises\<close>

lemma digits_nonempty: "digits n \<noteq> []"
  by (subst digits.simps) simp

lemma digits_length: "10 ^ k \<le> n \<Longrightarrow> k < length (digits n)"
proof (induction k arbitrary: n)
  case 0
  then show ?case using digits_nonempty [of n] by (cases "digits n") simp_all
next
  case (Suc k)
  from Suc.prems have a: "10 * 10 ^ k \<le> n" by simp
  then have "10 ^ k \<le> n div 10" by (simp add: less_eq_div_iff_mult_less_eq mult.commute)
  then have l: "k < length (digits (n div 10))" by (rule Suc.IH)
  have "(1::nat) \<le> 10 ^ k" by simp
  with a have "\<not> n < 10" by linarith
  then have "digits n = digits (n div 10) @ [char_of (48 + n mod 10)]"
    by (subst digits.simps) simp
  with l show ?case by simp
qed

lemma str_of_int_huge:
  assumes "10 ^ k \<le> \<bar>n\<bar>" "int_max_str_digits \<le> k"
  shows "str_of_int n =
     Inl (ValueError ''Exceeds the limit (4300 digits) for integer string conversion'')"
proof -
  from assms(1) have "int (10 ^ k) \<le> \<bar>n\<bar>"
    by simp
  then have "10 ^ k \<le> nat \<bar>n\<bar>"
    by linarith
  then have "k < length (digits (nat \<bar>n\<bar>))"
    by (rule digits_length)
  with assms(2) show ?thesis
    by (simp add: str_of_int_def Let_def)
qed

lemma handler_raises_iff:
  "handler repr event context = Inl e \<longleftrightarrow>
     (\<exists>kvs t. event = JDict kvs \<and> map_of kvs ''type'' = Some t \<and>
        (in_str_set t ALLOWED_TYPES = Inl e \<or>
         in_str_set t ALLOWED_TYPES = Inr False \<and> format repr t = Inl e \<or>
         t = JStr ''PAYMENT'' \<and> payment_errors kvs = [] \<and>
           py_float (get kvs ''amount'') = Inl e))"
proof (cases event)
  case (JDict kvs)
  show ?thesis
  proof (cases "map_of kvs ''type''")
    case None
    with JDict show ?thesis by (simp add: handler_no_type)
  next
    case (Some t)
    show ?thesis
    proof (cases t rule: in_str_set_cases)
      case (unhashable e')
      with JDict Some show ?thesis
        by (auto simp: handler_unhashable)
    next
      case unsupported
      with JDict Some show ?thesis
        by (cases "format repr t")
          (auto simp: handler_unsupported handler_unformattable ALLOWED_TYPES_def)
    next
      case signup
      with Some have "has_type kvs ''USER_SIGNUP''" by (simp add: has_type_def)
      with JDict Some signup show ?thesis
        by (simp add: handler_signup handle_user_signup_eq ALLOWED_TYPES_def)
    next
      case payment
      with Some have "has_type kvs ''PAYMENT''" by (simp add: has_type_def)
      with JDict Some payment show ?thesis
        by (simp add: handler_payment handle_payment_eq ALLOWED_TYPES_def bind_def
            split: sum.splits)
    next
      case upload
      with Some have "has_type kvs ''FILE_UPLOAD''" by (simp add: has_type_def)
      with JDict Some upload show ?thesis
        by (simp add: handler_upload handle_file_upload_eq ALLOWED_TYPES_def)
    qed
  qed
qed (simp_all add: handler_def)

text \<open>
  Claim C1 says that for every event the value returned by the handler is an envelope with
  the four keys, a status and the three equivalences. For the event \<^verbatim>\<open>{"type": []}\<close> the
  handler returns no value: the test \<^verbatim>\<open>event_type not in ALLOWED_TYPES\<close> hashes the list and
  raises \<^verbatim>\<open>TypeError\<close>. Every value that the handler does return is such an envelope
  (\<open>handler_returned_envelope\<close>).
\<close>

theorem handler_raises_on_list_type:
  "handler (\<lambda>v. []) (JDict [(''type'', JList [])]) None =
     Inl (TypeError ''unhashable type: list'')"
  by (simp add: handler_def bind_def)



section \<open>Booleans as numbers\<close>






section \<open>Missing fields\<close>

lemma get_absent: "map_of kvs f = None \<Longrightarrow> get kvs f = JNull"
  by (simp add: get_def)

lemma get_Cons: "get ((k, v) # kvs) f = (if f = k then v else get kvs f)"
  by (simp add: get_def)

lemma has_type_Cons: "f \<noteq> ''type'' \<Longrightarrow> has_type ((f, v) # kvs) t = has_type kvs t"
  by (simp add: has_type_def)

lemma str_and_not_str: "\<not> is_str v \<Longrightarrow> str_and v P = False"
  by (cases v) simp_all

lemma int_and_not_int: "\<not> is_int v \<Longrightarrow> int_and v P = False"
  by (cases v) simp_all

lemma le_zero_not_number: "\<not> is_number v \<Longrightarrow> number_and_le_zero v = False"
  by (cases v) simp_all

lemma messages_eq:
  "messages ''USER_SIGNUP'' =
     [''user_id must be an integer'', ''email must be a string'', ''Invalid email format'',
      ''plan must be a string'', ''Invalid plan value'']"
  "messages ''PAYMENT'' =
     [''payment_id must be a string'', ''user_id must be an integer'',
      ''amount must be a number'', ''amount must be greater than 0'',
      ''currency must be a string'', ''Unsupported currency'']"
  "messages ''FILE_UPLOAD'' =
     [''file_name must be a string'', ''size_bytes must be an integer'',
      ''size_bytes must be >= 0'', ''bucket must be a string'', ''uploader must be a string'',
      ''Invalid uploader email'']"
  by (simp_all add: messages_def required_fields_def)

lemma errors_in_messages:
  "set (signup_errors kvs) \<subseteq> set (messages ''USER_SIGNUP'')"
  "set (payment_errors kvs) \<subseteq> set (messages ''PAYMENT'')"
  "set (file_upload_errors kvs) \<subseteq> set (messages ''FILE_UPLOAD'')"
  unfolding messages_eq
  by (auto simp: signup_errors_def payment_errors_def file_upload_errors_def split: if_splits)

lemma signup_missing:
  assumes "(f, k, msg, others) \<in> set (required_fields ''USER_SIGNUP'')" "get kvs f = JNull"
  shows "count_list (signup_errors kvs) msg = 1"
    and "\<forall>m\<in>set others. m \<notin> set (signup_errors kvs)"
    and "f \<noteq> ''type''"
    and "\<not> has_kind k v \<Longrightarrow> signup_errors ((f, v) # kvs) = signup_errors kvs"
proof -
  from assms(1) have "f = ''user_id'' \<and> k = KInt \<and> msg = ''user_id must be an integer'' \<and>
        others = [] \<or>
      f = ''email'' \<and> k = KStr \<and> msg = ''email must be a string'' \<and>
        others = [''Invalid email format''] \<or>
      f = ''plan'' \<and> k = KStr \<and> msg = ''plan must be a string'' \<and>
        others = [''Invalid plan value'']"
    by (simp add: required_fields_def)
  then have "count_list (signup_errors kvs) msg = 1 \<and>
      (\<forall>m\<in>set others. m \<notin> set (signup_errors kvs)) \<and> f \<noteq> ''type'' \<and>
      (\<not> has_kind k v \<longrightarrow> signup_errors ((f, v) # kvs) = signup_errors kvs)"
    using assms(2)
    by (elim disjE conjE; simp add: signup_errors_def get_Cons str_and_not_str)
  then show "count_list (signup_errors kvs) msg = 1"
    and "\<forall>m\<in>set others. m \<notin> set (signup_errors kvs)"
    and "f \<noteq> ''type''"
    and "\<not> has_kind k v \<Longrightarrow> signup_errors ((f, v) # kvs) = signup_errors kvs"
    by simp_all
qed

lemma payment_missing:
  assumes "(f, k, msg, others) \<in> set (required_fields ''PAYMENT'')" "get kvs f = JNull"
  shows "count_list (payment_errors kvs) msg = 1"
    and "\<forall>m\<in>set others. m \<notin> set (payment_errors kvs)"
    and "f \<noteq> ''type''"
    and "\<not> has_kind k v \<Longrightarrow> payment_errors ((f, v) # kvs) = payment_errors kvs"
proof -
  from assms(1) have "f = ''payment_id'' \<and> k = KStr \<and> msg = ''payment_id must be a string'' \<and>
        others = [] \<or>
      f = ''user_id'' \<and> k = KInt \<and> msg = ''user_id must be an integer'' \<and> others = [] \<or>
      f = ''amount'' \<and> k = KNumber \<and> msg = ''amount must be a number'' \<and>
        others = [''amount must be greater than 0''] \<or>
      f = ''currency'' \<and> k = KStr \<and> msg = ''currency must be a string'' \<and>
        others = [''Unsupported currency'']"
    by (simp add: required_fields_def)
  then have "count_list (payment_errors kvs) msg = 1 \<and>
      (\<forall>m\<in>set others. m \<notin> set (payment_errors kvs)) \<and> f \<noteq> ''type'' \<and>
      (\<not> has_kind k v \<longrightarrow> payment_errors ((f, v) # kvs) = payment_errors kvs)"
    using assms(2)
    by (elim disjE conjE;
        simp add: payment_errors_def get_Cons str_and_not_str le_zero_not_number)
  then show "count_list (payment_errors kvs) msg = 1"
    and "\<forall>m\<in>set others. m \<notin> set (payment_errors kvs)"
    and "f \<noteq> ''type''"
    and "\<not> has_kind k v \<Longrightarrow> payment_errors ((f, v) # kvs) = payment_errors kvs"
    by simp_all
qed

lemma upload_missing:
  assumes "(f, k, msg, others) \<in> set (required_fields ''FILE_UPLOAD'')" "get kvs f = JNull"
  shows "count_list (file_upload_errors kvs) msg = 1"
    and "\<forall>m\<in>set others. m \<notin> set (file_upload_errors kvs)"
    and "f \<noteq> ''type''"
    and "\<not> has_kind k v \<Longrightarrow> file_upload_errors ((f, v) # kvs) = file_upload_errors kvs"
proof -
  from assms(1) have "f = ''file_name'' \<and> k = KStr \<and> msg = ''file_name must be a string'' \<and>
        others = [] \<or>
      f = ''size_bytes'' \<and> k = KInt \<and> msg = ''size_bytes must be an integer'' \<and>
        others = [''size_bytes must be >= 0''] \<or>
      f = ''bucket'' \<and> k = KStr \<and> msg = ''bucket must be a string'' \<and> others = [] \<or>
      f = ''uploader'' \<and> k = KStr \<and> msg = ''uploader must be a string'' \<and>
        others = [''Invalid uploader email'']"
    by (simp add: required_fields_def)
  then have "count_list (file_upload_errors kvs) msg = 1 \<and>
      (\<forall>m\<in>set others. m \<notin> set (file_upload_errors kvs)) \<and> f \<noteq> ''type'' \<and>
      (\<not> has_kind k v \<longrightarrow> file_upload_errors ((f, v) # kvs) = file_upload_errors kvs)"
    using assms(2)
    by (elim disjE conjE;
        simp add: file_upload_errors_def get_Cons str_and_not_str int_and_not_int)
  then show "count_list (file_upload_errors kvs) msg = 1"
    and "\<forall>m\<in>set others. m \<notin> set (file_upload_errors kvs)"
    and "f \<noteq> ''type''"
    and "\<not> has_kind k v \<Longrightarrow> file_upload_errors ((f, v) # kvs) = file_upload_errors kvs"
    by simp_all
qed

lemma required_fields_types:
  assumes "x \<in> set (required_fields t)"
  obtains "t = ''USER_SIGNUP''" | "t = ''PAYMENT''" | "t = ''FILE_UPLOAD''"
  using assms unfolding required_fields_def by (auto split: if_splits)

lemma signup_missing_field:
  assumes "has_type kvs ''USER_SIGNUP''" "f \<noteq> ''type''"
    "count_list (signup_errors kvs) msg = 1"
  shows "handler repr (JDict kvs) context = Inr (err (signup_errors kvs))"
    and "signup_errors ((f, v) # kvs) = signup_errors kvs \<Longrightarrow>
         handler repr (JDict ((f, v) # kvs)) context = Inr (err (signup_errors kvs))"
proof -
  from assms(3) have ne: "signup_errors kvs \<noteq> []" by auto
  with assms(1) show "handler repr (JDict kvs) context = Inr (err (signup_errors kvs))"
    by (simp add: handler_signup handle_user_signup_eq)
  assume eq: "signup_errors ((f, v) # kvs) = signup_errors kvs"
  have "has_type ((f, v) # kvs) ''USER_SIGNUP''"
    using assms(1,2) by (simp add: has_type_Cons)
  with ne eq show "handler repr (JDict ((f, v) # kvs)) context = Inr (err (signup_errors kvs))"
    by (simp add: handler_signup handle_user_signup_eq)
qed

lemma payment_missing_field:
  assumes "has_type kvs ''PAYMENT''" "f \<noteq> ''type''"
    "count_list (payment_errors kvs) msg = 1"
  shows "handler repr (JDict kvs) context = Inr (err (payment_errors kvs))"
    and "payment_errors ((f, v) # kvs) = payment_errors kvs \<Longrightarrow>
         handler repr (JDict ((f, v) # kvs)) context = Inr (err (payment_errors kvs))"
proof -
  from assms(3) have ne: "payment_errors kvs \<noteq> []" by auto
  with assms(1) show "handler repr (JDict kvs) context = Inr (err (payment_errors kvs))"
    by (simp add: handler_payment handle_payment_eq)
  assume eq: "payment_errors ((f, v) # kvs) = payment_errors kvs"
  have "has_type ((f, v) # kvs) ''PAYMENT''"
    using assms(1,2) by (simp add: has_type_Cons)
  with ne eq show "handler repr (JDict ((f, v) # kvs)) context = Inr (err (payment_errors kvs))"
    by (simp add: handler_payment handle_payment_eq)
qed

lemma upload_missing_field:
  assumes "has_type kvs ''FILE_UPLOAD''" "f \<noteq> ''type''"
    "count_list (file_upload_errors kvs) msg = 1"
  shows "handler repr (JDict kvs) context = Inr (err (file_upload_errors kvs))"
    and "file_upload_errors ((f, v) # kvs) = file_upload_errors kvs \<Longrightarrow>
         handler repr (JDict ((f, v) # kvs)) context = Inr (err (file_upload_errors kvs))"
proof -
  from assms(3) have ne: "file_upload_errors kvs \<noteq> []" by auto
  with assms(1) show "handler repr (JDict kvs) context = Inr (err (file_upload_errors kvs))"
    by (simp add: handler_upload handle_file_upload_eq)
  assume eq: "file_upload_errors ((f, v) # kvs) = file_upload_errors kvs"
  have "has_type ((f, v) # kvs) ''FILE_UPLOAD''"
    using assms(1,2) by (simp add: has_type_Cons)
  with ne eq
  show "handler repr (JDict ((f, v) # kvs)) context = Inr (err (file_upload_errors kvs))"
    by (simp add: handler_upload handle_file_upload_eq)
qed

text \<open>
  Claim C10. When a required field \<open>f\<close> is absent from an event of a recognised type, the
  handler raises nothing and returns an error envelope. In it the type error of \<open>f\<close> occurs
  exactly once, no other message about \<open>f\<close> occurs, and every message is one of the type
  and value messages of the fields of that event type, so there is no message of its own
  for a missing field. The same envelope is returned when \<open>f\<close> is present with any value
  of the wrong type, null among them.
\<close>

theorem missing_field_is_type_error:
  assumes "(f, k, msg, others) \<in> set (required_fields t)" "has_type kvs t"
    "map_of kvs f = None"
  shows "\<exists>errs. handler repr (JDict kvs) context = Inr (err errs) \<and>
           count_list errs msg = 1 \<and> (\<forall>m\<in>set others. m \<notin> set errs) \<and>
           set errs \<subseteq> set (messages t) \<and>
           (\<forall>v. \<not> has_kind k v \<longrightarrow>
              handler repr (JDict ((f, v) # kvs)) context = Inr (err errs))"
proof -
  from assms(3) have g: "get kvs f = JNull" by (rule get_absent)
  from assms(1) show ?thesis
  proof (cases rule: required_fields_types)
    case 1
    from assms(1) have r: "(f, k, msg, others) \<in> set (required_fields ''USER_SIGNUP'')"
      unfolding 1 .
    from assms(2) have t: "has_type kvs ''USER_SIGNUP''"
      unfolding 1 .
    note m = signup_missing [OF r g]
    note h = signup_missing_field [OF t m(3) m(1)]
    have "\<forall>v. \<not> has_kind k v \<longrightarrow>
        handler repr (JDict ((f, v) # kvs)) context = Inr (err (signup_errors kvs))"
      using h(2) m(4) by blast
    with h(1) m(1,2) errors_in_messages(1) [of kvs] show ?thesis
      unfolding 1 by blast
  next
    case 2
    from assms(1) have r: "(f, k, msg, others) \<in> set (required_fields ''PAYMENT'')"
      unfolding 2 .
    from assms(2) have t: "has_type kvs ''PAYMENT''"
      unfolding 2 .
    note m = payment_missing [OF r g]
    note h = payment_missing_field [OF t m(3) m(1)]
    have "\<forall>v. \<not> has_kind k v \<longrightarrow>
        handler repr (JDict ((f, v) # kvs)) context = Inr (err (payment_errors kvs))"
      using h(2) m(4) by blast
    with h(1) m(1,2) errors_in_messages(2) [of kvs] show ?thesis
      unfolding 2 by blast
  next
    case 3
    from assms(1) have r: "(f, k, msg, others) \<in> set (required_fields ''FILE_UPLOAD'')"
      unfolding 3 .
    from assms(2) have t: "has_type kvs ''FILE_UPLOAD''"
      unfolding 3 .
    note m = upload_missing [OF r g]
    note h = upload_missing_field [OF t m(3) m(1)]
    have "\<forall>v. \<not> has_kind k v \<longrightarrow>
        handler repr (JDict ((f, v) # kvs)) context = Inr (err (file_upload_errors kvs))"
      using h(2) m(4) by blast
    with h(1) m(1,2) errors_in_messages(3) [of kvs] show ?thesis
      unfolding 3 by blast
  qed
qed

theorem missing_field_is_type_error_witness:
  "handler (\<lambda>v. [])
     (JDict [(''type'', JStr ''PAYMENT''), (''payment_id'', JStr ''p1''), (''user_id'', JInt 1),
             (''currency'', JStr ''usd'')]) None =
   Inr (err [''amount must be a number'']) \<and>
   handler (\<lambda>v. [])
     (JDict [(''amount'', JStr ''12''), (''type'', JStr ''PAYMENT''), (''payment_id'', JStr ''p1''),
             (''user_id'', JInt 1), (''currency'', JStr ''usd'')]) None =
   Inr (err [''amount must be a number''])"
proof -
  let ?kvs = "[(''type'', JStr ''PAYMENT''), (''payment_id'', JStr ''p1''), (''user_id'', JInt 1),
             (''currency'', JStr ''usd'')]"
  have e: "payment_errors ?kvs = [''amount must be a number'']"
    by (simp add: payment_errors_def get_def upper_usd)
  have r: "(''amount'', KNumber, ''amount must be a number'', [''amount must be greater than 0''])
          \<in> set (required_fields ''PAYMENT'')"
    by (simp add: required_fields_def)
  have t: "has_type ?kvs ''PAYMENT''" and m: "map_of ?kvs ''amount'' = None"
    by (simp_all add: has_type_def)
  have k: "\<not> has_kind KNumber (JStr ''12'')"
    by simp
  have h: "handler (\<lambda>v. []) (JDict ?kvs) None = Inr (err [''amount must be a number''])"
    using payment_rejected [OF t, of "\<lambda>v. []" None] e by simp
  from missing_field_is_type_error [OF r t m, of "\<lambda>v. []" None] h k show ?thesis
    by (auto simp: err_inject)
qed

end
